theory Spec2Isabelle
  imports Complex_Main "HOL-Library.Log_Nat" "HOL-Library.Product_Lexorder"
begin

section \<open>The deal-image fetcher: scripts/fetch-deal-images.mjs\<close>

text \<open>
  The script enriches every deal record that has no \<open>image\<close> with a downloaded and
  normalised product image. This theory embeds its functions one by one. Library code
  the script calls (the URL constructor, \<open>JSON.parse\<close>, cheerio, sharp, undici's
  \<open>fetch\<close>, the file system) is not part of the script: it is a parameter of the model,
  the record \<open>env\<close> below. JavaScript strings are modelled as \<open>string\<close> (lists of
  8-bit characters); \<open>null\<close> and \<open>undefined\<close> of a string-valued expression are \<open>None\<close>.
  An exception is a value: a function that can throw returns \<open>None\<close>, or \<open>Inl\<close> with
  the error, so that every \<open>catch\<close> of the script is a case distinction of the model.
\<close>

subsection \<open>Strings and regular expressions\<close>

definition startsWith :: "string \<Rightarrow> string \<Rightarrow> bool" where
  "startsWith s p = (take (length p) s = p)"

definition to_lower :: "char \<Rightarrow> char" where
  "to_lower c =
     (let n = (of_char c :: nat) in if 65 \<le> n \<and> n \<le> 90 then char_of (n + 32) else c)"

definition line_terminator :: "char \<Rightarrow> bool" where
  "line_terminator c = (c = CHR 0x0A \<or> c = CHR 0x0D)"

text \<open>
  The regular expressions of the script are literals, \<open>.*\<close> and the anchor \<open>^\<close>, all
  with the flag \<open>i\<close>. A pattern is a predicate on the rest of the subject, in
  continuation-passing style: \<open>lit_ci p k\<close> matches the literal \<open>p\<close> without regard to
  (ASCII) case and goes on with \<open>k\<close>; \<open>dot_star k\<close> skips any number of characters
  that are not line terminators; \<open>search k\<close> is \<open>RegExp.test\<close> of an unanchored pattern.
\<close>

fun lit_ci :: "string \<Rightarrow> (string \<Rightarrow> bool) \<Rightarrow> string \<Rightarrow> bool" where
  "lit_ci [] k s = k s"
| "lit_ci (p # ps) k [] = False"
| "lit_ci (p # ps) k (c # cs) = (to_lower c = to_lower p \<and> lit_ci ps k cs)"

fun dot_star :: "(string \<Rightarrow> bool) \<Rightarrow> string \<Rightarrow> bool" where
  "dot_star k [] = k []"
| "dot_star k (c # cs) = (k (c # cs) \<or> (\<not> line_terminator c \<and> dot_star k cs))"

fun search :: "(string \<Rightarrow> bool) \<Rightarrow> string \<Rightarrow> bool" where
  "search k [] = k []"
| "search k (c # cs) = (k (c # cs) \<or> search k cs)"

definition accept :: "string \<Rightarrow> bool" where
  "accept s = True"

text \<open>\<open>String.prototype.split\<close> on a one-character separator: at least one piece.\<close>

fun split_on :: "char \<Rightarrow> string \<Rightarrow> string list" where
  "split_on sep [] = [[]]"
| "split_on sep (c # cs) =
     (if c = sep then [] # split_on sep cs
      else (case split_on sep cs of [] \<Rightarrow> [[c]] | p # ps \<Rightarrow> (c # p) # ps))"

definition white_space :: "char \<Rightarrow> bool" where
  "white_space c =
     (c = CHR 0x20 \<or> c = CHR 0x09 \<or> c = CHR 0x0A \<or> c = CHR 0x0B \<or> c = CHR 0x0C
      \<or> c = CHR 0x0D \<or> c = CHR 0xA0)"

definition trim :: "string \<Rightarrow> string" where
  "trim s = rev (dropWhile white_space (rev (dropWhile white_space s)))"

text \<open>\<open>dyn.replace(/&quot;/g, '"')\<close>\<close>

fun replace_quot :: "string \<Rightarrow> string" where
  "replace_quot [] = []"
| "replace_quot (c # cs) =
     (if startsWith (c # cs) ''&quot;'' then CHR 0x22 # replace_quot (drop 5 cs)
      else c # replace_quot cs)"

text \<open>Decimal notation of an array index, as \<open>Object.keys\<close> of an array gives it.\<close>

fun digits :: "nat \<Rightarrow> nat \<Rightarrow> string" where
  "digits 0 n = []"
| "digits (Suc f) n =
     (if n < 10 then [char_of (48 + n)]
      else digits f (n div 10) @ [char_of (48 + n mod 10)])"

definition show_nat :: "nat \<Rightarrow> string" where
  "show_nat n = digits (Suc n) n"

subsection \<open>Numbers\<close>

text \<open>
  A JavaScript number is an IEEE 754 double: \<open>Fin m e\<close> is the finite value
  \<open>m * 2 ^ e\<close> (every double is of this form; the two zeros are not told apart, since
  nothing here divides), \<open>PInf\<close> and \<open>NInf\<close> are the infinities. \<open>round_double m e\<close>
  is the double nearest to \<open>m * 2 ^ e\<close>, ties to the even mantissa: 53 bits of mantissa,
  the smallest unit \<open>2 ^ - 1074\<close>, and an infinity from \<open>2 ^ 1024\<close> on. \<open>js_times\<close> is
  the operator \<open>*\<close> and \<open>js_gt\<close> the operator \<open>>\<close> on numbers.
\<close>

datatype number = Fin int int | PInf | NInf | NaN

definition round_shift :: "int \<Rightarrow> nat \<Rightarrow> int" where
  "round_shift a s =
     (let d = 2 ^ s; q = a div d; r = a mod d
      in if 2 * r < d then q else if d < 2 * r then q + 1 else if even q then q else q + 1)"

definition round_double :: "int \<Rightarrow> int \<Rightarrow> number" where
  "round_double m e =
     (if m = 0 then Fin 0 0
      else
        (let a = \<bar>m\<bar>;
             q = max (bitlen a + e - 53) (- 1074);
             n = (if q \<le> e then a * 2 ^ nat (e - q) else round_shift a (nat (q - e)))
         in if q < 1024 \<and> n < 2 ^ nat (1024 - q) then Fin (if m < 0 then - n else n) q
            else if m < 0 then NInf else PInf))"

fun sign :: "number \<Rightarrow> int" where
  "sign (Fin m e) = sgn m"
| "sign PInf = 1"
| "sign NInf = - 1"
| "sign NaN = 0"

fun js_times :: "number \<Rightarrow> number \<Rightarrow> number" where
  "js_times (Fin m1 e1) (Fin m2 e2) = round_double (m1 * m2) (e1 + e2)"
| "js_times a b =
     (if a = NaN \<or> b = NaN \<or> sign a = 0 \<or> sign b = 0 then NaN
      else if sign a = sign b then PInf else NInf)"

fun js_gt :: "number \<Rightarrow> number \<Rightarrow> bool" where
  "js_gt (Fin m1 e1) (Fin m2 e2) =
     (let k = min e1 e2 in m2 * 2 ^ nat (e2 - k) < m1 * 2 ^ nat (e1 - k))"
| "js_gt PInf (Fin m e) = True"
| "js_gt PInf NInf = True"
| "js_gt (Fin m e) NInf = True"
| "js_gt a b = False"

subsection \<open>JSON values\<close>

text \<open>
  The result of \<open>JSON.parse\<close>. An object is the list of its entries in the order
  \<open>Object.entries\<close> enumerates them. \<open>JInt i\<close> is the number of the integer \<open>i\<close>.
\<close>

datatype json =
    JNull
  | JBool bool
  | JNum number
  | JStr string
  | JArr "json list"
  | JObj "(string \<times> json) list"

fun truthy :: "json \<Rightarrow> bool" where
  "truthy JNull = False"
| "truthy (JBool b) = b"
| "truthy (JNum n) = (sign n \<noteq> 0)"
| "truthy (JStr s) = (s \<noteq> [])"
| "truthy (JArr xs) = True"
| "truthy (JObj kvs) = True"

abbreviation JInt :: "int \<Rightarrow> json" where
  "JInt i \<equiv> JNum (Fin i 0)"

text \<open>A string-valued expression that may be \<open>null\<close> or \<open>undefined\<close>.\<close>

fun of_str :: "string option \<Rightarrow> json" where
  "of_str None = JNull"
| "of_str (Some s) = JStr s"

fun truthy_str :: "string option \<Rightarrow> bool" where
  "truthy_str None = False"
| "truthy_str (Some s) = (s \<noteq> [])"

text \<open>\<open>a || b\<close>\<close>

definition js_or :: "json \<Rightarrow> json \<Rightarrow> json" where
  "js_or a b = (if truthy a then a else b)"

text \<open>Property access \<open>obj.name\<close> on a parsed value; \<open>None\<close> is \<open>undefined\<close>.\<close>

fun get_prop :: "json \<Rightarrow> string \<Rightarrow> json option" where
  "get_prop (JObj kvs) name = map_of kvs name"
| "get_prop v name = None"

fun enumerate_from :: "nat \<Rightarrow> 'a list \<Rightarrow> (string \<times> 'a) list" where
  "enumerate_from n [] = []"
| "enumerate_from n (x # xs) = (show_nat n, x) # enumerate_from (Suc n) xs"

text \<open>\<open>Object.entries(v)\<close>; \<open>None\<close> is the TypeError on \<open>null\<close>.\<close>

fun entries :: "json \<Rightarrow> (string \<times> json) list option" where
  "entries JNull = None"
| "entries (JObj kvs) = Some kvs"
| "entries (JArr xs) = Some (enumerate_from 0 xs)"
| "entries (JStr s) = Some (enumerate_from 0 (map (\<lambda>c. JStr [c]) s))"
| "entries v = Some []"

definition keys :: "json \<Rightarrow> string list option" where
  "keys v = map_option (map fst) (entries v)"

subsection \<open>The environment\<close>

record url_obj =
  href :: string
  hostname :: string

record response =
  ok :: bool
  status :: nat
  body :: string

record metadata =
  width :: "nat option"
  height :: "nat option"

record element =
  attribs :: "(string \<times> string) list"
  text_of :: string

datatype error = Error string

text \<open>
  A deal record of the catalog, with the fields the script reads or writes, each a string
  when it is there; \<open>None\<close> is an absent field. The catalog is the list of its records.
\<close>

record deal =
  deal_id :: "string option"
  deal_url :: "string option"
  deal_image :: "string option"
  deal_imageAlt :: "string option"
  deal_title :: "string option"

text \<open>
  What a run does to the outside world, in order: the page and image requests, the image
  files written, the warnings and errors printed, the pauses, and the rewrite of
  \<open>deals.json\<close> (\<open>WriteCatalog\<close>, with the records it serialises). The progress
  lines of \<open>console.log\<close> are left out.
\<close>

datatype event =
    GetHtml string
  | GetBuffer string "string option"
  | WriteFile string string
  | Warn string
  | ConsoleError string
  | Sleep nat
  | WriteCatalog "deal list"

text \<open>
  \<open>None\<close> and \<open>Inl\<close> stand for the exception a library call throws. \<open>fetch\<close> and
  \<open>writeFile\<close> act on the outside world: their result may depend on everything the
  run has done so far, which they get as their first argument. A response comes with its
  body, so a failure while the body is read counts as a failure of \<open>fetch\<close>.
  \<open>cheerio_load html\<close> is the document handle \<open>$\<close>: a selector gives the elements it
  matches, in document order. \<open>sharp_metadata\<close> is \<open>sharp(buf).metadata()\<close>, and
  \<open>sharp_webp\<close> the resize to 800 by 800 with the encoding of lines 274 to 277.
\<close>

record env =
  URL :: "string \<Rightarrow> string option \<Rightarrow> url_obj option"
  JSON_parse :: "string \<Rightarrow> json option"
  ToNumber :: "json \<Rightarrow> number"
  cheerio_load :: "string \<Rightarrow> string \<Rightarrow> element list"
  sharp_metadata :: "string \<Rightarrow> metadata option"
  sharp_webp :: "string \<Rightarrow> error + string"
  fetch :: "event list \<Rightarrow> string \<Rightarrow> (string \<times> string) list \<Rightarrow> error + response"
  writeFile :: "event list \<Rightarrow> string \<Rightarrow> string \<Rightarrow> error option"
  path_join :: "string \<Rightarrow> string \<Rightarrow> string"
  PUBLIC_IMG_DIR :: string

subsection \<open>URL utilities\<close>

text \<open>
  \<open>absolutize\<close>: the argument is whatever an extractor produced. On a value that is
  not a string, \<open>url.startsWith\<close> is not a function, and the handler returns \<open>null\<close>.
\<close>

fun absolutize :: "env \<Rightarrow> json \<Rightarrow> string option \<Rightarrow> string option" where
  "absolutize E (JStr url) base =
     (if url = [] then None
      else if startsWith url ''//'' then Some (''https:'' @ url)
      else if startsWith url ''http://'' \<or> startsWith url ''https://'' then Some url
      else (case URL E url base of None \<Rightarrow> None | Some u \<Rightarrow> Some (href u)))"
| "absolutize E v base = None"

definition isAmazonUrl :: "env \<Rightarrow> string \<Rightarrow> bool" where
  "isAmazonUrl E u =
     (case URL E u None of
        None \<Rightarrow> False
      | Some l \<Rightarrow> lit_ci ''amazon.'' accept (hostname l)
                 \<or> search (lit_ci ''.amazon.'' accept) (hostname l))"

definition isTrackingPixelUrl :: "string \<Rightarrow> bool" where
  "isTrackingPixelUrl u =
     (search (lit_ci ''fls-'' (dot_star (lit_ci ''.amazon.com/''
                (dot_star (lit_ci ''batch'' accept))))) u
      \<or> search (lit_ci ''pixel'' accept) u)"

subsection \<open>Pickers\<close>

text \<open>\<open>$(s).attr(name)\<close>: the attribute of the first matched element.\<close>

definition attr :: "element list \<Rightarrow> string \<Rightarrow> string option" where
  "attr els name = (case els of [] \<Rightarrow> None | el # _ \<Rightarrow> map_of (attribs el) name)"

definition og_sels :: "string list" where
  \<open>og_sels =
     [''meta[property="og:image"]'',
      ''meta[property="og:image:url"]'',
      ''meta[name="og:image"]'',
      ''meta[name="twitter:image"]'',
      ''meta[name="twitter:image:src"]'']\<close>

fun pickOg_loop :: "(string \<Rightarrow> element list) \<Rightarrow> string list \<Rightarrow> string option" where
  "pickOg_loop S [] = None"
| "pickOg_loop S (s # sels) =
     (let v = attr (S s) ''content'' in if truthy_str v then v else pickOg_loop S sels)"

definition pickOgImage :: "(string \<Rightarrow> element list) \<Rightarrow> string option" where
  "pickOgImage S = pickOg_loop S og_sels"

text \<open>The inner function \<open>pull\<close> of \<open>pickFromLdJson\<close>; \<open>JNull\<close> is its \<open>null\<close>.\<close>

definition pull :: "json \<Rightarrow> json" where
  "pull obj =
     (if \<not> truthy obj then JNull
      else (case get_prop obj ''image'' of
              Some (JStr s) \<Rightarrow> JStr s
            | Some (JArr (x # xs)) \<Rightarrow> x
            | _ \<Rightarrow>
               (case get_prop obj ''offers'' of
                  Some (JObj kvs) \<Rightarrow>
                    (case map_of kvs ''image'' of Some (JStr s) \<Rightarrow> JStr s | _ \<Rightarrow> JNull)
                | _ \<Rightarrow> JNull)))"

fun pull_items :: "json list \<Rightarrow> json" where
  "pull_items [] = JNull"
| "pull_items (item # items) =
     (let found = pull item in if truthy found then found else pull_items items)"

text \<open>The body of the \<open>try\<close> of \<open>pickFromLdJson\<close> for one parsed block.\<close>

definition pull_data :: "json \<Rightarrow> json" where
  "pull_data data =
     (let found = pull data in
      if truthy found then found
      else (case data of JArr items \<Rightarrow> pull_items items | _ \<Rightarrow> JNull))"

fun pickLd_loop :: "env \<Rightarrow> element list \<Rightarrow> json" where
  "pickLd_loop E [] = JNull"
| "pickLd_loop E (el # els) =
     (if text_of el = [] then pickLd_loop E els
      else (case JSON_parse E (text_of el) of
              None \<Rightarrow> pickLd_loop E els
            | Some data \<Rightarrow>
                (let found = pull_data data in
                 if truthy found then found else pickLd_loop E els)))"

definition pickFromLdJson :: "env \<Rightarrow> (string \<Rightarrow> element list) \<Rightarrow> json" where
  \<open>pickFromLdJson E S = pickLd_loop E (S ''script[type="application/ld+json"]'')\<close>

text \<open>The candidates one \<open>img\<close> element contributes in \<open>pickFirstLargeImg\<close>.\<close>

definition srcset_urls :: "string \<Rightarrow> string list" where
  "srcset_urls srcset =
     filter (\<lambda>u. u \<noteq> [])
       (map (\<lambda>s. takeWhile (\<lambda>c. c \<noteq> CHR '' '') (trim s)) (split_on CHR '','' srcset))"

definition dyn_keys :: "env \<Rightarrow> string \<Rightarrow> string list" where
  "dyn_keys E dyn =
     (case JSON_parse E (replace_quot dyn) of
        None \<Rightarrow> []
      | Some j \<Rightarrow> (case keys j of None \<Rightarrow> [] | Some ks \<Rightarrow> ks))"

definition img_candidates :: "env \<Rightarrow> element \<Rightarrow> string list" where
  "img_candidates E el =
     (let src = attr [el] ''src'';
          srcset = attr [el] ''srcset'';
          dyn = attr [el] ''data-a-dynamic-image''
      in (case src of Some s \<Rightarrow> (if s \<noteq> [] then [s] else []) | None \<Rightarrow> [])
         @ (case srcset of Some s \<Rightarrow> (if s \<noteq> [] then srcset_urls s else []) | None \<Rightarrow> [])
         @ (case dyn of Some s \<Rightarrow> (if s \<noteq> [] then dyn_keys E s else []) | None \<Rightarrow> []))"

definition collect :: "env \<Rightarrow> (string \<Rightarrow> element list) \<Rightarrow> string list" where
  "collect E S = concat (map (img_candidates E) (S ''img[src], img[srcset]''))"

definition usable :: "string option \<Rightarrow> bool" where
  "usable u =
     (case u of
        None \<Rightarrow> False
      | Some s \<Rightarrow> s \<noteq> [] \<and> \<not> isTrackingPixelUrl s \<and> \<not> lit_ci ''data:'' accept s)"

definition pickFirstLargeImg ::
  "env \<Rightarrow> (string \<Rightarrow> element list) \<Rightarrow> string option \<Rightarrow> string option" where
  "pickFirstLargeImg E S baseUrl =
     (let candidates =
            filter usable (map (\<lambda>u. absolutize E (JStr u) baseUrl) (collect E S))
      in (case find (\<lambda>u. case u of
                            None \<Rightarrow> False
                          | Some s \<Rightarrow> search (lit_ci ''m.media-amazon.com/images/'' accept) s)
                 candidates of
            Some prefer \<Rightarrow> prefer
          | None \<Rightarrow> (case candidates of [] \<Rightarrow> None | c # _ \<Rightarrow> c)))"

text \<open>
  \<open>(w || 0) * (h || 0)\<close> of \<open>pickAmazonImage\<close>, for the value \<open>sz\<close> of an entry. An
  operand that is not a number goes through the platform's \<open>ToNumber\<close>.
\<close>

definition or_zero :: "json option \<Rightarrow> json" where
  "or_zero v = (case v of None \<Rightarrow> JInt 0 | Some x \<Rightarrow> if truthy x then x else JInt 0)"

definition number :: "env \<Rightarrow> json \<Rightarrow> number" where
  "number E v = (case v of JNum n \<Rightarrow> n | _ \<Rightarrow> ToNumber E v)"

definition area_of :: "env \<Rightarrow> json \<Rightarrow> number" where
  "area_of E sz =
     (let wh = (case sz of
                  JArr xs \<Rightarrow> (case xs of [] \<Rightarrow> (None, None)
                                        | [w] \<Rightarrow> (Some w, None)
                                        | w # h # _ \<Rightarrow> (Some w, Some h))
                | _ \<Rightarrow> (Some (JInt 0), Some (JInt 0)))
      in js_times (number E (or_zero (fst wh))) (number E (or_zero (snd wh))))"

fun largest ::
  "env \<Rightarrow> (string \<times> json) list \<Rightarrow> string option \<Rightarrow> number \<Rightarrow> string option" where
  "largest E [] best bestArea = best"
| "largest E ((url, sz) # rest) best bestArea =
     (let area = area_of E sz
      in if js_gt area bestArea then largest E rest (Some url) area
         else largest E rest best bestArea)"

definition tryEl :: "env \<Rightarrow> element list \<Rightarrow> string option" where
  "tryEl E el =
     (if el = [] then None
      else
        (let src = attr el ''src'';
             old = attr el ''data-old-hires'';
             dyn = attr el ''data-a-dynamic-image''
         in if truthy_str old then old
            else if truthy_str src then src
            else (case dyn of
                    None \<Rightarrow> None
                  | Some dy \<Rightarrow>
                      if dy = [] then None
                      else (case JSON_parse E (replace_quot dy) of
                              None \<Rightarrow> None
                            | Some j \<Rightarrow>
                                (case entries j of
                                   None \<Rightarrow> None
                                 | Some es \<Rightarrow>
                                     (let best = largest E es None (Fin 0 0)
                                      in if truthy_str best then best else None))))))"

definition pickAmazonImage :: "env \<Rightarrow> (string \<Rightarrow> element list) \<Rightarrow> string option" where
  "pickAmazonImage E S =
     (let pick = tryEl E (S ''#landingImage'') in
      if truthy_str pick then pick
      else
        (let pick = tryEl E (S ''#imgTagWrapperId img'') in
         if truthy_str pick then pick
         else pickFirstLargeImg E S None))"

subsection \<open>HTTP\<close>

definition UA :: string where
  "UA = ''Mozilla/5.0 (Windows NT 10.0; Win64; x64) AppleWebKit/537.36 (KHTML, like Gecko) Chrome/123.0 Safari/537.36''"

definition getHtml :: "env \<Rightarrow> event list \<Rightarrow> string \<Rightarrow> error + string" where
  "getHtml E h url =
     (case fetch E h url
             [(''User-Agent'', UA),
              (''Accept'', ''text/html,application/xhtml+xml,application/xml;q=0.9,image/avif,image/webp,*/*;q=0.8''),
              (''Accept-Language'', ''en-US,en;q=0.9''),
              (''Cache-Control'', ''no-cache''),
              (''Pragma'', ''no-cache'')] of
        Inl e \<Rightarrow> Inl e
      | Inr res \<Rightarrow>
          if \<not> ok res then Inl (Error (''GET '' @ url @ '' -> '' @ show_nat (status res)))
          else Inr (body res))"

definition getBuffer :: "env \<Rightarrow> event list \<Rightarrow> string \<Rightarrow> string option \<Rightarrow> error + string" where
  "getBuffer E h url referer =
     (case fetch E h url
             ([(''User-Agent'', UA),
               (''Accept'', ''image/avif,image/webp,image/*,*/*;q=0.8'')]
              @ (case referer of
                   None \<Rightarrow> []
                 | Some r \<Rightarrow> if r = [] then [] else [(''Referer'', r)])) of
        Inl e \<Rightarrow> Inl e
      | Inr res \<Rightarrow>
          if \<not> ok res then Inl (Error (''IMG '' @ url @ '' -> '' @ show_nat (status res)))
          else Inr (body res))"

subsection \<open>Main\<close>

text \<open>
  Lines 231 to 245 of \<open>main\<close>: the chain of pickers for the page \<open>S\<close> of the record's
  \<open>url\<close>, and \<open>absolutize\<close> of what it gives.
\<close>

definition pick_image :: "env \<Rightarrow> (string \<Rightarrow> element list) \<Rightarrow> string \<Rightarrow> string option" where
  "pick_image E S url =
     absolutize E
       (if isAmazonUrl E url then
          js_or (of_str (pickAmazonImage E S))
            (js_or (of_str (pickOgImage S))
               (js_or (pickFromLdJson E S)
                  (of_str (pickFirstLargeImg E S (Some url)))))
        else
          js_or (of_str (pickOgImage S))
            (js_or (pickFromLdJson E S)
               (of_str (pickFirstLargeImg E S (Some url)))))
       (Some url)"

text \<open>Line 262: \<open>!meta || (meta.width && meta.height && meta.width * meta.height < 10_000)\<close>\<close>

definition too_tiny :: "metadata option \<Rightarrow> bool" where
  "too_tiny meta =
     (case meta of
        None \<Rightarrow> True
      | Some m \<Rightarrow>
          (case width m of
             None \<Rightarrow> False
           | Some w \<Rightarrow>
               w \<noteq> 0 \<and> (case height m of
                            None \<Rightarrow> False
                          | Some h \<Rightarrow> h \<noteq> 0 \<and> w * h < 10000)))"

text \<open>
  Lines 255 to 270: the buffer that goes on to the resize, or the error of the second
  download, with the events of this stage. \<open>h\<close> is the history of the run before it.
\<close>

definition fallback_stage ::
  "env \<Rightarrow> event list \<Rightarrow> (string \<Rightarrow> element list) \<Rightarrow> string \<Rightarrow> string \<Rightarrow> string
     \<Rightarrow> (error + string) \<times> event list" where
  "fallback_stage E h S url imgUrl buf =
     (if too_tiny (sharp_metadata E buf) then
        (let fallback = pickFirstLargeImg E S (Some url);
             absFallback = absolutize E (of_str fallback) (Some url)
         in (case absFallback of
               None \<Rightarrow> (Inr buf, [])
             | Some f \<Rightarrow>
                 if f \<noteq> [] \<and> f \<noteq> imgUrl \<and> \<not> isTrackingPixelUrl f
                 then (getBuffer E h f (Some url), [GetBuffer f (Some url)])
                 else (Inr buf, [])))
      else (Inr buf, []))"

datatype outcome = Threw error | Continued | Saved deal

text \<open>Lines 272 to 285: resize, write the file, set the fields, pause.\<close>

definition save_stage ::
  "env \<Rightarrow> event list \<Rightarrow> deal \<Rightarrow> string \<Rightarrow> string \<Rightarrow> outcome \<times> event list" where
  "save_stage E h d ident buf =
     (let outName = ident @ ''.webp'';
          outPath = path_join E (PUBLIC_IMG_DIR E) outName
      in (case sharp_webp E buf of
            Inl e \<Rightarrow> (Threw e, [])
          | Inr webp \<Rightarrow>
              (case writeFile E h outPath webp of
                 Some e \<Rightarrow> (Threw e, [WriteFile outPath webp])
               | None \<Rightarrow>
                   (Saved (d\<lparr>deal_image := Some (''/images/'' @ outName),
                              deal_imageAlt :=
                                (if truthy_str (deal_imageAlt d) then deal_imageAlt d
                                 else deal_title d)\<rparr>),
                    [WriteFile outPath webp, Sleep 400]))))"

text \<open>
  The \<open>try\<close> block of the loop, lines 227 to 285, for a record with the identifier
  \<open>ident\<close> and the page address \<open>url\<close>: how it ends, and its events.
\<close>

definition try_block ::
  "env \<Rightarrow> event list \<Rightarrow> deal \<Rightarrow> string \<Rightarrow> string \<Rightarrow> outcome \<times> event list" where
  "try_block E h d ident url =
     (case getHtml E h url of
        Inl e \<Rightarrow> (Threw e, [GetHtml url])
      | Inr html \<Rightarrow>
          (let S = cheerio_load E html;
               imgUrl = pick_image E S url;
               no_image = (Continued,
                           [GetHtml url, Warn (''! '' @ ident @ '': no usable image found'')])
           in (case imgUrl of
                 None \<Rightarrow> no_image
               | Some c \<Rightarrow>
                   if c = [] \<or> isTrackingPixelUrl c then no_image
                   else
                     (let h1 = [GetHtml url, GetBuffer c (Some url)]
                      in (case getBuffer E (h @ [GetHtml url]) c (Some url) of
                            Inl e \<Rightarrow> (Threw e, h1)
                          | Inr buf \<Rightarrow>
                              (case fallback_stage E (h @ h1) S url c buf of
                                 (Inl e, es) \<Rightarrow> (Threw e, h1 @ es)
                               | (Inr buf', es) \<Rightarrow>
                                   (case save_stage E (h @ h1 @ es) d ident buf' of
                                      (out, es') \<Rightarrow> (out, h1 @ es @ es'))))))))"

text \<open>
  One round of the loop of \<open>main\<close>, lines 222 to 289: the record as the round leaves it,
  the events of the round, and whether the round sets \<open>changed\<close>.
\<close>

definition loop_body :: "env \<Rightarrow> event list \<Rightarrow> deal \<Rightarrow> deal \<times> event list \<times> bool" where
  "loop_body E h d =
     (if truthy_str (deal_image d) then (d, [], False)
      else
        (case (deal_url d, deal_id d) of
           (Some url, Some ident) \<Rightarrow>
             if url = [] \<or> ident = [] then (d, [], False)
             else
               (case try_block E h d ident url of
                  (Threw (Error msg), es) \<Rightarrow>
                    (d, es @ [ConsoleError (CHR 0xD7 # '' '' @ ident @ '': '' @ msg)], False)
                | (Continued, es) \<Rightarrow> (d, es, False)
                | (Saved d', es) \<Rightarrow> (d', es, True))
         | _ \<Rightarrow> (d, [], False)))"

fun main_loop ::
  "env \<Rightarrow> event list \<Rightarrow> bool \<Rightarrow> deal list \<Rightarrow> deal list \<times> event list \<times> bool" where
  "main_loop E h changed [] = ([], [], changed)"
| "main_loop E h changed (d # ds) =
     (case loop_body E h d of
        (d', es, c) \<Rightarrow>
          (case main_loop E (h @ es) (changed \<or> c) ds of
             (ds', es', changed') \<Rightarrow> (d' # ds', es @ es', changed')))"

text \<open>
  \<open>main\<close> from line 220 on, for the catalog \<open>deals\<close> that lines 215 to 218 have read:
  the catalog in memory at the end, and the events of the run.
\<close>

definition main :: "env \<Rightarrow> deal list \<Rightarrow> deal list \<times> event list" where
  "main E deals =
     (case main_loop E [] False deals of
        (deals', es, changed) \<Rightarrow>
          if changed then (deals', es @ [WriteCatalog deals']) else (deals', es))"

subsection \<open>Notions of the specification\<close>

text \<open>
  An address is taken to be absolute when it begins with a scheme: a letter, then letters,
  digits, \<open>+\<close>, \<open>-\<close> or \<open>.\<close>, then a colon.
\<close>

definition is_alpha :: "char \<Rightarrow> bool" where
  "is_alpha c = (let n = (of_char (to_lower c) :: nat) in 97 \<le> n \<and> n \<le> 122)"

definition scheme_char :: "char \<Rightarrow> bool" where
  "scheme_char c =
     (is_alpha c \<or> (let n = (of_char c :: nat) in 48 \<le> n \<and> n \<le> 57)
      \<or> c = CHR ''+'' \<or> c = CHR ''-'' \<or> c = CHR ''.'')"

fun scheme_rest :: "string \<Rightarrow> bool" where
  "scheme_rest [] = False"
| "scheme_rest (c # cs) = (c = CHR '':'' \<or> (scheme_char c \<and> scheme_rest cs))"

definition has_scheme :: "string \<Rightarrow> bool" where
  "has_scheme s = (case s of [] \<Rightarrow> False | c # cs \<Rightarrow> is_alpha c \<and> scheme_rest cs)"




text \<open>
  A candidate of the generic scan is relative when it is not protocol-relative, does not
  start with \<open>http://\<close> or \<open>https://\<close>, and the URL constructor does not accept it
  without a base.
\<close>

definition relative :: "env \<Rightarrow> string \<Rightarrow> bool" where
  "relative E c =
     (\<not> startsWith c ''//'' \<and> \<not> startsWith c ''http://'' \<and> \<not> startsWith c ''https://''
      \<and> URL E c None = None)"

text \<open>The addresses handed to \<open>getBuffer\<close>, and the catalogs written, in order.\<close>

fun downloads :: "event list \<Rightarrow> string list" where
  "downloads [] = []"
| "downloads (GetBuffer u r # es) = u # downloads es"
| "downloads (e # es) = downloads es"

fun catalog_writes :: "event list \<Rightarrow> deal list list" where
  "catalog_writes [] = []"
| "catalog_writes (WriteCatalog ds # es) = ds # catalog_writes es"
| "catalog_writes (e # es) = catalog_writes es"

text \<open>
  The alternate of the fallback in the words of the specification: what the generic
  extractor gives on a second run, made absolute, if it exists, differs from the first
  candidate \<open>c\<close> and is not a tracking pixel. It is a list of at most one address.
\<close>

definition alternate :: "env \<Rightarrow> (string \<Rightarrow> element list) \<Rightarrow> string \<Rightarrow> string \<Rightarrow> string list" where
  "alternate E S url c =
     (case absolutize E (of_str (pickFirstLargeImg E S (Some url))) (Some url) of
        None \<Rightarrow> []
      | Some f \<Rightarrow> if f \<noteq> [] \<and> f \<noteq> c \<and> \<not> isTrackingPixelUrl f then [f] else [])"

text \<open>
  The selection policy in the words of the specification: the results of the extractors
  in their order, of which the first that is not empty counts.
\<close>

fun first_nonempty :: "json list \<Rightarrow> json" where
  "first_nonempty [] = JNull"
| "first_nonempty (x # xs) = (if truthy x then x else first_nonempty xs)"

definition extractor_order :: "env \<Rightarrow> (string \<Rightarrow> element list) \<Rightarrow> string \<Rightarrow> json list" where
  "extractor_order E S url =
     (if isAmazonUrl E url
      then [of_str (pickAmazonImage E S), of_str (pickOgImage S), pickFromLdJson E S,
            of_str (pickFirstLargeImg E S (Some url))]
      else [of_str (pickOgImage S), pickFromLdJson E S,
            of_str (pickFirstLargeImg E S (Some url))])"

subsection \<open>A small environment\<close>

text \<open>
  An instance of \<open>env\<close> on which the model can be run: a URL constructor for
  \<open>http\<close>, \<open>https\<close> and \<open>data\<close> addresses without port, query or fragment, and a
  handful of pages and images, each answered the same way whenever it is asked for.
\<close>

definition http_split :: "string \<Rightarrow> (string \<times> string) option" where
  "http_split s =
     (if startsWith s ''https://'' then Some (''https://'', drop 8 s)
      else if startsWith s ''http://'' then Some (''http://'', drop 7 s)
      else None)"

definition demo_absolute :: "string \<Rightarrow> string \<Rightarrow> url_obj option" where
  "demo_absolute pre rest =
     (let host = takeWhile (\<lambda>c. c \<noteq> CHR ''/'') rest
      in if host = [] \<or> \<not> list_all (\<lambda>c. c \<noteq> CHR '' '') host then None
         else Some \<lparr>href = pre @ (if host = rest then rest @ ''/'' else rest),
                    hostname = host\<rparr>)"

definition demo_relative :: "string \<Rightarrow> string \<Rightarrow> string \<Rightarrow> url_obj option" where
  "demo_relative pre rest s =
     (let host = takeWhile (\<lambda>c. c \<noteq> CHR ''/'') rest;
          path = dropWhile (\<lambda>c. c \<noteq> CHR ''/'') rest;
          dir = rev (dropWhile (\<lambda>c. c \<noteq> CHR ''/'') (rev path))
      in if host = [] then None
         else if startsWith s ''/'' then Some \<lparr>href = pre @ host @ s, hostname = host\<rparr>
         else Some \<lparr>href = pre @ host @ (if dir = [] then ''/'' else dir) @ s,
                    hostname = host\<rparr>)"

definition demo_URL :: "string \<Rightarrow> string option \<Rightarrow> url_obj option" where
  "demo_URL s base =
     (case http_split s of
        Some (pre, rest) \<Rightarrow> demo_absolute pre rest
      | None \<Rightarrow>
          if startsWith s ''data:'' then Some \<lparr>href = ''data:'' @ drop 5 s, hostname = []\<rparr>
          else
            (case base of
               None \<Rightarrow> None
             | Some b \<Rightarrow>
                 (case http_split b of
                    None \<Rightarrow> None
                  | Some (pre, rest) \<Rightarrow> demo_relative pre rest s)))"

definition demo_map :: json where
  "demo_map =
     JObj [(''a'', JArr [JInt 100, JInt 100]),
           (''b'', JArr [JInt 400, JInt 400]),
           (''c'', JStr ''not-an-array'')]"

definition demo_huge_map :: json where
  "demo_huge_map =
     JObj [(''a'', JArr [JInt 4503599627370496, JInt 2]),
           (''b'', JArr [JInt 3002399751580331, JInt 3])]"

definition demo_dyn :: string where
  \<open>demo_dyn = ''{"a":[100,100],"b":[400,400],"c":"not-an-array"}''\<close>

definition demo_huge :: string where
  \<open>demo_huge = ''{"a":[4503599627370496,2],"b":[3002399751580331,3]}''\<close>

definition demo_JSON_parse :: "string \<Rightarrow> json option" where
  "demo_JSON_parse s =
     (if s = demo_dyn then Some demo_map
      else if s = demo_huge then Some demo_huge_map
      else None)"

definition img :: "string \<Rightarrow> element" where
  "img src = \<lparr>attribs = [(''src'', src)], text_of = []\<rparr>"

definition meta_tag :: "string \<Rightarrow> element" where
  "meta_tag content = \<lparr>attribs = [(''property'', ''og:image''), (''content'', content)], text_of = []\<rparr>"

definition demo_page :: "string \<Rightarrow> string \<Rightarrow> element list" where
  \<open>demo_page html sel =
     (if html = ''page-small'' then
        (if sel = ''meta[property="og:image"]'' then [meta_tag ''/img/small.jpg'']
         else if sel = ''img[src], img[srcset]'' then [img ''/img/big.jpg'']
         else [])
      else if html = ''page-large'' then
        (if sel = ''meta[property="og:image"]'' then [meta_tag ''/img/large.jpg'']
         else if sel = ''img[src], img[srcset]'' then [img ''/img/big.jpg'']
         else [])
      else if html = ''page-data'' then
        (if sel = ''meta[property="og:image"]'' then [meta_tag ''data:image/png;base64,AAAA'']
         else [])
      else if html = ''page-pixel'' then
        (if sel = ''meta[property="og:image"]'' then [meta_tag ''https://example.com/pixel.gif'']
         else [])
      else if html = ''page-amazon'' then
        (if sel = ''img[src], img[srcset]''
         then [img ''img/a.jpg'', img ''//m.media-amazon.com/images/I/x.jpg'']
         else [])
      else if html = ''page-dyn'' then
        (if sel = ''#landingImage''
         then [\<lparr>attribs = [(''data-a-dynamic-image'', demo_dyn)], text_of = []\<rparr>]
         else [])
      else if html = ''page-huge'' then
        (if sel = ''#landingImage''
         then [\<lparr>attribs = [(''data-a-dynamic-image'', demo_huge)], text_of = []\<rparr>]
         else [])
      else [])\<close>

definition demo_fetch :: "event list \<Rightarrow> string \<Rightarrow> (string \<times> string) list \<Rightarrow> error + response" where
  "demo_fetch h url headers =
     (if url = ''https://example.com/p'' then Inr \<lparr>ok = True, status = 200, body = ''page-small''\<rparr>
      else if url = ''https://example.com/q'' then Inr \<lparr>ok = True, status = 200, body = ''page-large''\<rparr>
      else if url = ''https://example.com/d'' then Inr \<lparr>ok = True, status = 200, body = ''page-data''\<rparr>
      else if url = ''https://example.com/t'' then Inr \<lparr>ok = True, status = 200, body = ''page-pixel''\<rparr>
      else if url = ''https://example.com/none'' then Inr \<lparr>ok = True, status = 200, body = ''page-empty''\<rparr>
      else if url = ''https://www.amazon.com/dp/B0'' then Inr \<lparr>ok = True, status = 200, body = ''page-amazon''\<rparr>
      else if url = ''https://example.com/img/small.jpg'' then Inr \<lparr>ok = True, status = 200, body = ''small-bytes''\<rparr>
      else if url = ''https://example.com/img/large.jpg'' then Inr \<lparr>ok = True, status = 200, body = ''large-bytes''\<rparr>
      else if url = ''https://example.com/img/big.jpg'' then Inr \<lparr>ok = True, status = 200, body = ''big-bytes''\<rparr>
      else if url = ''data:image/png;base64,AAAA'' then Inr \<lparr>ok = True, status = 200, body = ''data-bytes''\<rparr>
      else if url = ''https://example.com/gone'' then Inr \<lparr>ok = False, status = 404, body = []\<rparr>
      else Inl (Error ''fetch failed''))"

definition demo_metadata :: "string \<Rightarrow> metadata option" where
  "demo_metadata buf =
     (if buf = ''small-bytes'' then Some \<lparr>width = Some 50, height = Some 50\<rparr>
      else if buf = ''large-bytes'' then Some \<lparr>width = Some 200, height = Some 200\<rparr>
      else if buf = ''big-bytes'' then Some \<lparr>width = Some 800, height = Some 800\<rparr>
      else if buf = ''svg-bytes'' then Some \<lparr>width = None, height = None\<rparr>
      else None)"

definition demo :: env where
  "demo =
     \<lparr>URL = demo_URL,
      JSON_parse = demo_JSON_parse,
      ToNumber = (\<lambda>v. NaN),
      cheerio_load = demo_page,
      sharp_metadata = demo_metadata,
      sharp_webp = (\<lambda>buf. if buf = ''data-bytes''
                          then Inl (Error ''Input buffer contains unsupported image format'')
                          else Inr (''webp:'' @ buf)),
      fetch = demo_fetch,
      writeFile = (\<lambda>h path data. if path = ''public/images/a/b.webp''
                                  then Some (Error ''ENOENT: no such file or directory'')
                                  else None),
      path_join = (\<lambda>dir name. dir @ ''/'' @ name),
      PUBLIC_IMG_DIR = ''public/images''\<rparr>"

definition deal_of :: "string \<Rightarrow> string \<Rightarrow> deal" where
  "deal_of ident url =
     \<lparr>deal_id = Some ident, deal_url = Some url, deal_image = None,
      deal_imageAlt = None, deal_title = Some ''Widget''\<rparr>"

section \<open>Properties\<close>

subsection \<open>Helper lemmas\<close>

lemma startsWithE: "startsWith s p \<Longrightarrow> \<exists>t. s = p @ t"
  unfolding startsWith_def by (metis append_take_drop_id)

lemma has_scheme_https: "has_scheme (''https:'' @ t)"
  by (simp add: has_scheme_def is_alpha_def scheme_char_def to_lower_def)

lemma has_scheme_http: "has_scheme (''http:'' @ t)"
  by (simp add: has_scheme_def is_alpha_def scheme_char_def to_lower_def)

lemma has_scheme_data: "has_scheme (''data:'' @ t)"
  by (simp add: has_scheme_def is_alpha_def scheme_char_def to_lower_def)

lemma has_scheme_https2: "has_scheme (''https://'' @ t)"
  using has_scheme_https [of "''//'' @ t"] by simp

lemma has_scheme_http2: "has_scheme (''http://'' @ t)"
  using has_scheme_http [of "''//'' @ t"] by simp

lemma http_split_scheme: "http_split b = Some (pre, rest) \<Longrightarrow> has_scheme (pre @ t)"
proof -
  assume "http_split b = Some (pre, rest)"
  then have "pre = ''https://'' \<or> pre = ''http://''"
    by (simp add: http_split_def split: if_splits)
  then show ?thesis using has_scheme_https2 [of t] has_scheme_http2 [of t] by blast
qed

lemma demo_absolute_href: "demo_absolute pre rest = Some u \<Longrightarrow> \<exists>t. href u = pre @ t"
proof -
  assume a: "demo_absolute pre rest = Some u"
  define host where "host = takeWhile (\<lambda>c. c \<noteq> CHR ''/'') rest"
  from a have "u = \<lparr>href = pre @ (if host = rest then rest @ ''/'' else rest), hostname = host\<rparr>"
    unfolding demo_absolute_def Let_def host_def [symmetric]
    by (cases "host = [] \<or> \<not> list_all (\<lambda>c. c \<noteq> CHR '' '') host") simp_all
  then have "href u = pre @ (if host = rest then rest @ ''/'' else rest)" by simp
  then show ?thesis by blast
qed

lemma demo_relative_href: "demo_relative pre rest s = Some u \<Longrightarrow> \<exists>t. href u = pre @ t"
proof -
  assume a: "demo_relative pre rest s = Some u"
  define host where "host = takeWhile (\<lambda>c. c \<noteq> CHR ''/'') rest"
  define dir where "dir = rev (dropWhile (\<lambda>c. c \<noteq> CHR ''/'') (rev (dropWhile (\<lambda>c. c \<noteq> CHR ''/'') rest)))"
  from a have "u = \<lparr>href = pre @ host @ s, hostname = host\<rparr> \<or> u = \<lparr>href = pre @ host @ (if dir = [] then ''/'' else dir) @ s, hostname = host\<rparr>"
    unfolding demo_relative_def Let_def host_def [symmetric] dir_def [symmetric]
    by (cases "host = []"; cases "startsWith s ''/''") simp_all
  then have "href u = pre @ host @ s \<or> href u = pre @ host @ (if dir = [] then ''/'' else dir) @ s" by auto
  then show ?thesis by blast
qed

lemma demo_href_scheme: "demo_URL s b = Some u \<Longrightarrow> has_scheme (href u)"
proof (cases "http_split s")
  case (Some pr)
  assume a: "demo_URL s b = Some u"
  obtain pre rest where pr: "pr = (pre, rest)" by (cases pr)
  from a Some pr have "demo_absolute pre rest = Some u" by (simp add: demo_URL_def)
  then obtain t where "href u = pre @ t" using demo_absolute_href by blast
  then show ?thesis using http_split_scheme Some pr by metis
next
  case None
  assume a: "demo_URL s b = Some u"
  show ?thesis
  proof (cases "startsWith s ''data:''")
    case True
    with a None have "href u = ''data:'' @ drop 5 s" by (auto simp: demo_URL_def)
    then show ?thesis using has_scheme_data by metis
  next
    case False
    show ?thesis
    proof (cases b)
      case None
      with a \<open>http_split s = None\<close> False show ?thesis by (simp add: demo_URL_def)
    next
      case (Some bb)
      show ?thesis
      proof (cases "http_split bb")
        case None
        with a \<open>http_split s = None\<close> False Some show ?thesis by (simp add: demo_URL_def)
      next
        case (Some pr)
        obtain pre rest where pr: "pr = (pre, rest)" by (cases pr)
        from a \<open>http_split s = None\<close> False \<open>b = Some bb\<close> Some pr
        have "demo_relative pre rest s = Some u" by (simp add: demo_URL_def)
        then obtain t where "href u = pre @ t" using demo_relative_href by blast
        then show ?thesis using http_split_scheme Some pr by metis
      qed
    qed
  qed
qed

subsection \<open>absolutize\<close>

lemma startsWith_slashes_ne: "startsWith s ''//'' \<Longrightarrow> s \<noteq> []"
  by (auto simp: startsWith_def)

text \<open>
  Claim C8, as the code has it. \<open>absolutize\<close> never raises: it is a total function whose
  \<open>None\<close> is the \<open>null\<close> of the source, the exception of the URL constructor included.
  For every input string and base it gives no value or an address with a scheme, as long
  as the address the URL constructor makes of this input has one. The empty string gives
  no value. An input that starts with \<open>//\<close> comes back with \<open>https:\<close> in front, and an
  input that starts with \<open>http://\<close> or \<open>https://\<close> comes back as it is: neither is
  parsed. Every other input gives what the URL constructor makes of it against the base,
  and no value when the constructor rejects it.
\<close>

theorem absolutize_result:
  assumes "\<forall>u. URL E s base = Some u \<longrightarrow> has_scheme (href u)"
  shows "(absolutize E (JStr s) base = None
            \<or> (\<exists>r. absolutize E (JStr s) base = Some r \<and> has_scheme r))
         \<and> (s = [] \<longrightarrow> absolutize E (JStr s) base = None)
         \<and> (startsWith s ''//'' \<longrightarrow> absolutize E (JStr s) base = Some (''https:'' @ s))
         \<and> (s \<noteq> [] \<and> \<not> startsWith s ''//''
              \<and> (startsWith s ''http://'' \<or> startsWith s ''https://'')
              \<longrightarrow> absolutize E (JStr s) base = Some s)
         \<and> (\<not> startsWith s ''//'' \<and> \<not> startsWith s ''http://''
              \<and> \<not> startsWith s ''https://''
              \<longrightarrow> absolutize E (JStr s) base = (if s = [] then None else map_option href (URL E s base)))"
proof -
  have c2: "s = [] \<longrightarrow> absolutize E (JStr s) base = None" by simp
  have c3: "startsWith s ''//'' \<longrightarrow> absolutize E (JStr s) base = Some (''https:'' @ s)"
    using startsWith_slashes_ne [of s] by simp
  have c4: "s \<noteq> [] \<and> \<not> startsWith s ''//''
              \<and> (startsWith s ''http://'' \<or> startsWith s ''https://'')
              \<longrightarrow> absolutize E (JStr s) base = Some s" by simp
  have c5: "\<not> startsWith s ''//'' \<and> \<not> startsWith s ''http://''
              \<and> \<not> startsWith s ''https://''
              \<longrightarrow> absolutize E (JStr s) base = (if s = [] then None else map_option href (URL E s base))"
    by (cases "URL E s base") simp_all
  have c1: "absolutize E (JStr s) base = None
            \<or> (\<exists>r. absolutize E (JStr s) base = Some r \<and> has_scheme r)"
  proof (cases "s = []")
    case True
    then show ?thesis by simp
  next
    case ne: False
    show ?thesis
    proof (cases "startsWith s ''//''")
      case True
      then show ?thesis using c3 has_scheme_https [of s] by simp
    next
      case ns: False
      show ?thesis
      proof (cases "startsWith s ''http://'' \<or> startsWith s ''https://''")
        case True
        then obtain t where "s = ''http://'' @ t \<or> s = ''https://'' @ t"
          using startsWithE by blast
        then have "has_scheme s" using has_scheme_http2 has_scheme_https2 by metis
        then show ?thesis using c4 ne ns True by simp
      next
        case False
        then show ?thesis using ne ns assms by (cases "URL E s base") simp_all
      qed
    qed
  qed
  from c1 c2 c3 c4 c5 show ?thesis by blast
qed

theorem absolutize_result_witness:
  "absolutize demo (JStr ''/img/widget.jpg'') (Some ''https://example.com/p'')
     = Some ''https://example.com/img/widget.jpg''
   \<and> has_scheme ''https://example.com/img/widget.jpg''
   \<and> absolutize demo (JStr ''//cdn.example.com/a.png'') (Some ''https://example.com/p'')
     = Some ''https://cdn.example.com/a.png''
   \<and> absolutize demo (JStr ''img/a.jpg'') None = None"
proof -
  have h: "\<forall>u. URL demo ''/img/widget.jpg'' (Some ''https://example.com/p'') = Some u
             \<longrightarrow> has_scheme (href u)"
    using demo_href_scheme by (simp add: demo_def)
  have u: "URL demo ''/img/widget.jpg'' (Some ''https://example.com/p'')
             = Some \<lparr>href = ''https://example.com/img/widget.jpg'', hostname = ''example.com''\<rparr>"
    by (simp add: demo_def demo_URL_def http_split_def startsWith_def demo_relative_def)
  have a: "absolutize demo (JStr ''/img/widget.jpg'') (Some ''https://example.com/p'')
             = Some ''https://example.com/img/widget.jpg''"
    using u by (simp add: startsWith_def)
  have s: "has_scheme ''https://example.com/img/widget.jpg''"
    using absolutize_result [OF h] a by simp
  have h2: "\<forall>u. URL demo ''//cdn.example.com/a.png'' (Some ''https://example.com/p'') = Some u
             \<longrightarrow> has_scheme (href u)"
    using demo_href_scheme by (simp add: demo_def)
  have b: "absolutize demo (JStr ''//cdn.example.com/a.png'') (Some ''https://example.com/p'')
             = Some ''https://cdn.example.com/a.png''"
    using absolutize_result [OF h2] by (simp add: startsWith_def)
  have h3: "\<forall>u. URL demo ''img/a.jpg'' None = Some u \<longrightarrow> has_scheme (href u)"
    using demo_href_scheme by (simp add: demo_def)
  have u3: "URL demo ''img/a.jpg'' None = None"
    by (simp add: demo_def demo_URL_def http_split_def startsWith_def)
  have c: "absolutize demo (JStr ''img/a.jpg'') None = None"
    using absolutize_result [OF h3] u3 by (simp add: startsWith_def)
  from a s b c show ?thesis by blast
qed

text \<open>
  Claim C8 as it is written says that a malformed input gives no value. The address
  \<open>http://\<close> has no host and the URL constructor rejects it, yet \<open>absolutize\<close> returns
  it, since it starts with \<open>http://\<close>.
\<close>

theorem absolutize_malformed_counterexample:
  "\<not> (URL demo ''http://'' (Some ''https://example.com/p'') = None
       \<longrightarrow> absolutize demo (JStr ''http://'') (Some ''https://example.com/p'') = None)"
  by (simp add: demo_def demo_URL_def http_split_def startsWith_def demo_absolute_def)

subsection \<open>The largest image of a size map\<close>



















subsection \<open>The fallback after a degenerate image\<close>

lemma too_tiny_iff:
  "too_tiny meta \<longleftrightarrow>
     (meta = None \<or> (\<exists>w h. meta = Some \<lparr>width = Some w, height = Some h\<rparr>
                         \<and> 0 < w \<and> 0 < h \<and> w * h < 10000))"
proof (cases meta)
  case None
  then show ?thesis by (simp add: too_tiny_def)
next
  case (Some m)
  obtain ow oh where m: "m = \<lparr>width = ow, height = oh\<rparr>" by (cases m) auto
  show ?thesis
  proof (cases ow)
    case None
    then show ?thesis using Some m by (simp add: too_tiny_def)
  next
    case w: (Some w)
    show ?thesis
    proof (cases oh)
      case None
      then show ?thesis using Some m w by (simp add: too_tiny_def)
    next
      case h: (Some h)
      then show ?thesis using Some m w by (simp add: too_tiny_def)
    qed
  qed
qed

lemma downloads_append: "downloads (a @ b) = downloads a @ downloads b"
  by (induction a rule: downloads.induct) simp_all

lemma downloads_save: "downloads (snd (save_stage E h d i buf)) = []"
proof (cases "sharp_webp E buf")
  case (Inl e)
  then show ?thesis by (simp add: save_stage_def Let_def)
next
  case (Inr webp)
  then show ?thesis
    by (cases "writeFile E h (path_join E (PUBLIC_IMG_DIR E) (i @ ''.webp'')) webp")
       (simp_all add: save_stage_def Let_def)
qed

lemma downloads_fallback:
  "downloads (snd (fallback_stage E h S u c buf)) =
     (if too_tiny (sharp_metadata E buf) then alternate E S u c else [])"
proof (cases "absolutize E (of_str (pickFirstLargeImg E S (Some u))) (Some u)")
  case None
  then show ?thesis by (simp add: fallback_stage_def alternate_def Let_def)
next
  case (Some f)
  then show ?thesis by (simp add: fallback_stage_def alternate_def Let_def)
qed

lemma alternate_le: "length (alternate E S u c) \<le> 1"
  by (cases "absolutize E (of_str (pickFirstLargeImg E S (Some u))) (Some u)")
     (simp_all add: alternate_def)

lemma try_block_downloaded:
  assumes "getHtml E h u = Inr html"
    and "pick_image E (cheerio_load E html) u = Some c" "c \<noteq> []" "\<not> isTrackingPixelUrl c"
    and "getBuffer E (h @ [GetHtml u]) c (Some u) = Inr buf"
  shows "downloads (snd (try_block E h d i u)) =
           c # (if too_tiny (sharp_metadata E buf) then alternate E (cheerio_load E html) u c else [])"
proof -
  let ?S = "cheerio_load E html"
  let ?h1 = "[GetHtml u, GetBuffer c (Some u)]"
  obtain r es where f: "fallback_stage E (h @ ?h1) ?S u c buf = (r, es)"
    by (cases "fallback_stage E (h @ ?h1) ?S u c buf")
  have des: "downloads es = (if too_tiny (sharp_metadata E buf) then alternate E ?S u c else [])"
    using downloads_fallback [of E "h @ ?h1" ?S u c buf] f by simp
  show ?thesis
  proof (cases r)
    case (Inl e)
    then have "snd (try_block E h d i u) = ?h1 @ es"
      using assms f by (simp add: try_block_def Let_def)
    then show ?thesis using des by (simp add: downloads_append)
  next
    case (Inr buf')
    obtain out es' where s: "save_stage E (h @ ?h1 @ es) d i buf' = (out, es')"
      by (cases "save_stage E (h @ ?h1 @ es) d i buf'")
    have "downloads es' = []" using downloads_save [of E "h @ ?h1 @ es" d i buf'] s by simp
    moreover have "snd (try_block E h d i u) = ?h1 @ es @ es'"
      using assms f Inr s by (simp add: try_block_def Let_def)
    ultimately show ?thesis using des by (simp add: downloads_append)
  qed
qed

lemma try_block_downloads_le: "length (downloads (snd (try_block E h d i u))) \<le> 2"
proof (cases "getHtml E h u")
  case (Inl e)
  then show ?thesis by (simp add: try_block_def Let_def)
next
  case (Inr html)
  show ?thesis
  proof (cases "pick_image E (cheerio_load E html) u")
    case None
    then show ?thesis using Inr by (simp add: try_block_def Let_def)
  next
    case (Some c)
    show ?thesis
    proof (cases "c = [] \<or> isTrackingPixelUrl c")
      case True
      then show ?thesis using Inr Some by (auto simp: try_block_def Let_def)
    next
      case False
      show ?thesis
      proof (cases "getBuffer E (h @ [GetHtml u]) c (Some u)")
        case (Inl e)
        then show ?thesis using Inr Some False by (simp add: try_block_def Let_def)
      next
        case buf: (Inr buf)
        have "downloads (snd (try_block E h d i u)) =
           c # (if too_tiny (sharp_metadata E buf) then alternate E (cheerio_load E html) u c else [])"
          using try_block_downloaded [OF Inr Some _ _ buf] False by simp
        then show ?thesis using alternate_le [of E "cheerio_load E html" u c] by simp
      qed
    qed
  qed
qed

lemma loop_body_events:
  "fst (snd (loop_body E h d)) = []
   \<or> (\<exists>i u. deal_id d = Some i \<and> deal_url d = Some u \<and> i \<noteq> [] \<and> u \<noteq> []
        \<and> \<not> truthy_str (deal_image d)
        \<and> (fst (snd (loop_body E h d)) = snd (try_block E h d i u)
            \<or> (\<exists>msg. fst (snd (loop_body E h d)) = snd (try_block E h d i u) @ [ConsoleError msg])))"
proof (cases "truthy_str (deal_image d)")
  case True
  then show ?thesis by (simp add: loop_body_def)
next
  case ni: False
  show ?thesis
  proof (cases "deal_url d")
    case None
    then show ?thesis using ni by (simp add: loop_body_def)
  next
    case u: (Some u)
    show ?thesis
    proof (cases "deal_id d")
      case None
      then show ?thesis using ni u by (simp add: loop_body_def)
    next
      case i: (Some i)
      show ?thesis
      proof (cases "u = [] \<or> i = []")
        case True
        then show ?thesis using ni u i by (auto simp: loop_body_def)
      next
        case False
        obtain out es where t: "try_block E h d i u = (out, es)" by (cases "try_block E h d i u")
        show ?thesis
        proof (cases out)
          case (Threw e)
          obtain msg where "e = Error msg" by (cases e)
          then show ?thesis using ni u i False t Threw by (simp add: loop_body_def)
        next
          case Continued
          then show ?thesis using ni u i False t by (simp add: loop_body_def)
        next
          case (Saved d')
          then show ?thesis using ni u i False t by (simp add: loop_body_def)
        qed
      qed
    qed
  qed
qed

lemma loop_body_downloads_le: "length (downloads (fst (snd (loop_body E h d)))) \<le> 2"
  using loop_body_events [of E h d] try_block_downloads_le
  by (auto simp: downloads_append)

lemma fallback_stage_not_tiny:
  "\<not> too_tiny (sharp_metadata E buf) \<Longrightarrow> fallback_stage E h S url imgUrl buf = (Inr buf, [])"
  by (simp add: fallback_stage_def)

text \<open>
  Claim C10. The test of line 262 holds exactly when the metadata could not be decoded,
  or have both a width and a height that are not zero, with a product below 10000. When
  decoding succeeds and the width or the height is missing or zero, the image is not
  degenerate: the fallback stage requests nothing and hands the buffer on unchanged.
\<close>

theorem no_size_is_not_degenerate:
  "(too_tiny meta \<longleftrightarrow>
      (meta = None \<or> (\<exists>w h. meta = Some \<lparr>width = Some w, height = Some h\<rparr>
                          \<and> 0 < w \<and> 0 < h \<and> w * h < 10000)))
   \<and> (sharp_metadata E buf = Some m
        \<and> (width m = None \<or> height m = None \<or> width m = Some 0 \<or> height m = Some 0)
      \<longrightarrow> \<not> too_tiny (sharp_metadata E buf)
          \<and> fallback_stage E h S url imgUrl buf = (Inr buf, []))"
proof -
  have a: "too_tiny meta \<longleftrightarrow>
      (meta = None \<or> (\<exists>w h. meta = Some \<lparr>width = Some w, height = Some h\<rparr>
                          \<and> 0 < w \<and> 0 < h \<and> w * h < 10000))"
    by (rule too_tiny_iff)
  have b: "sharp_metadata E buf = Some m
        \<and> (width m = None \<or> height m = None \<or> width m = Some 0 \<or> height m = Some 0)
      \<longrightarrow> \<not> too_tiny (sharp_metadata E buf)
          \<and> fallback_stage E h S url imgUrl buf = (Inr buf, [])"
  proof (intro impI)
    assume h: "sharp_metadata E buf = Some m
        \<and> (width m = None \<or> height m = None \<or> width m = Some 0 \<or> height m = Some 0)"
    then have nt: "\<not> too_tiny (sharp_metadata E buf)"
      by (auto simp: too_tiny_def split: option.splits)
    then show "\<not> too_tiny (sharp_metadata E buf)
          \<and> fallback_stage E h S url imgUrl buf = (Inr buf, [])"
      using fallback_stage_not_tiny [of E buf h S url imgUrl] by simp
  qed
  show ?thesis using a b by (rule conjI)
qed

theorem no_size_is_not_degenerate_witness:
  "too_tiny (Some \<lparr>width = Some 50, height = Some 50\<rparr>)
   \<and> \<not> too_tiny (Some \<lparr>width = Some 0, height = Some 50\<rparr>)
   \<and> fallback_stage demo [] (demo_page ''page-small'') ''https://example.com/p''
        ''https://example.com/img/small.jpg'' ''svg-bytes'' = (Inr ''svg-bytes'', [])"
proof -
  have m: "sharp_metadata demo ''svg-bytes'' = Some \<lparr>width = None, height = None\<rparr>"
    by (simp add: demo_def demo_metadata_def)
  have a: "too_tiny (Some \<lparr>width = Some 50, height = Some 50\<rparr>)"
    using no_size_is_not_degenerate [of "Some \<lparr>width = Some 50, height = Some 50\<rparr>"] by simp
  have b: "\<not> too_tiny (Some \<lparr>width = Some 0, height = Some 50\<rparr>)"
    using no_size_is_not_degenerate [of "Some \<lparr>width = Some 0, height = Some 50\<rparr>"] by simp
  have c: "fallback_stage demo [] (demo_page ''page-small'') ''https://example.com/p''
        ''https://example.com/img/small.jpg'' ''svg-bytes'' = (Inr ''svg-bytes'', [])"
    using no_size_is_not_degenerate [of _ demo "''svg-bytes''" "\<lparr>width = None, height = None\<rparr>"] m
    by simp
  from a b c show ?thesis by blast
qed

text \<open>
  Claim C1. Let the page be fetched, the selected candidate \<open>c\<close> be usable and its
  download succeed with the bytes \<open>buf\<close>. If the metadata of \<open>buf\<close> cannot be decoded, or
  its width and height are decoded (as positive numbers of pixels) with a product below
  10000, there is exactly one fallback attempt: the images requested for the record are
  \<open>c\<close> and then the alternate, if there is one, and nothing else. If the product is at
  least 10000, \<open>c\<close> is the only image requested. The alternate is at most one address, and
  no round of the loop, whatever happens in it, requests more than two images: the
  candidate and one fallback.
\<close>

theorem one_fallback_attempt:
  "(getHtml E h url = Inr html
      \<and> pick_image E (cheerio_load E html) url = Some c \<and> c \<noteq> [] \<and> \<not> isTrackingPixelUrl c
      \<and> getBuffer E (h @ [GetHtml url]) c (Some url) = Inr buf
    \<longrightarrow> ((sharp_metadata E buf = None
            \<or> (\<exists>w ht. sharp_metadata E buf = Some \<lparr>width = Some w, height = Some ht\<rparr>
                   \<and> 0 < w \<and> 0 < ht \<and> w * ht < 10000))
           \<longrightarrow> downloads (snd (try_block E h d ident url))
                 = c # alternate E (cheerio_load E html) url c)
        \<and> ((\<exists>w ht. sharp_metadata E buf = Some \<lparr>width = Some w, height = Some ht\<rparr>
                   \<and> 10000 \<le> w * ht)
           \<longrightarrow> downloads (snd (try_block E h d ident url)) = [c]))
   \<and> length (alternate E S url c) \<le> 1
   \<and> length (downloads (fst (snd (loop_body E h d)))) \<le> 2"
proof -
  have a: "getHtml E h url = Inr html
      \<and> pick_image E (cheerio_load E html) url = Some c \<and> c \<noteq> [] \<and> \<not> isTrackingPixelUrl c
      \<and> getBuffer E (h @ [GetHtml url]) c (Some url) = Inr buf
    \<longrightarrow> ((sharp_metadata E buf = None
            \<or> (\<exists>w ht. sharp_metadata E buf = Some \<lparr>width = Some w, height = Some ht\<rparr>
                   \<and> 0 < w \<and> 0 < ht \<and> w * ht < 10000))
           \<longrightarrow> downloads (snd (try_block E h d ident url))
                 = c # alternate E (cheerio_load E html) url c)
        \<and> ((\<exists>w ht. sharp_metadata E buf = Some \<lparr>width = Some w, height = Some ht\<rparr>
                   \<and> 10000 \<le> w * ht)
           \<longrightarrow> downloads (snd (try_block E h d ident url)) = [c])"
  proof (intro impI conjI)
    assume p: "getHtml E h url = Inr html
      \<and> pick_image E (cheerio_load E html) url = Some c \<and> c \<noteq> [] \<and> \<not> isTrackingPixelUrl c
      \<and> getBuffer E (h @ [GetHtml url]) c (Some url) = Inr buf"
    then have dl: "downloads (snd (try_block E h d ident url)) =
        c # (if too_tiny (sharp_metadata E buf) then alternate E (cheerio_load E html) url c else [])"
      using try_block_downloaded [of E h url html c buf d ident] by blast
    {
      assume "sharp_metadata E buf = None
            \<or> (\<exists>w ht. sharp_metadata E buf = Some \<lparr>width = Some w, height = Some ht\<rparr>
                   \<and> 0 < w \<and> 0 < ht \<and> w * ht < 10000)"
      then have "too_tiny (sharp_metadata E buf)" by (simp add: too_tiny_iff)
      then show "downloads (snd (try_block E h d ident url))
                 = c # alternate E (cheerio_load E html) url c" using dl by simp
    }
    {
      assume "\<exists>w ht. sharp_metadata E buf = Some \<lparr>width = Some w, height = Some ht\<rparr>
                   \<and> 10000 \<le> w * ht"
      then obtain w ht where "sharp_metadata E buf = Some \<lparr>width = Some w, height = Some ht\<rparr>"
        "10000 \<le> w * ht" by blast
      then have "\<not> too_tiny (sharp_metadata E buf)" by (simp add: too_tiny_def)
      then show "downloads (snd (try_block E h d ident url)) = [c]" using dl by simp
    }
  qed
  show ?thesis using a alternate_le [of E S url c] loop_body_downloads_le [of E h d]
    by (intro conjI)
qed

theorem one_fallback_attempt_witness:
  "downloads (snd (try_block demo [] (deal_of ''x1'' ''https://example.com/p'') ''x1''
                     ''https://example.com/p''))
     = [''https://example.com/img/small.jpg'', ''https://example.com/img/big.jpg'']
   \<and> downloads (snd (try_block demo [] (deal_of ''x2'' ''https://example.com/q'') ''x2''
                     ''https://example.com/q''))
     = [''https://example.com/img/large.jpg'']"
proof -
  let ?p = "''https://example.com/p''" and ?q = "''https://example.com/q''"
  let ?small = "''https://example.com/img/small.jpg''"
  let ?large = "''https://example.com/img/large.jpg''"
  have p1: "getHtml demo [] ?p = Inr ''page-small''" by code_simp
  have p2: "pick_image demo (cheerio_load demo ''page-small'') ?p = Some ?small" by code_simp
  have p3: "?small \<noteq> [] \<and> \<not> isTrackingPixelUrl ?small" by code_simp
  have p4: "getBuffer demo ([] @ [GetHtml ?p]) ?small (Some ?p) = Inr ''small-bytes''"
    by code_simp
  have p5: "sharp_metadata demo ''small-bytes'' = Some \<lparr>width = Some 50, height = Some 50\<rparr>"
    by (simp add: demo_def demo_metadata_def)
  have p6: "alternate demo (cheerio_load demo ''page-small'') ?p ?small
              = [''https://example.com/img/big.jpg'']" by code_simp
  have a: "downloads (snd (try_block demo [] (deal_of ''x1'' ?p) ''x1'' ?p))
             = [?small, ''https://example.com/img/big.jpg'']"
    using one_fallback_attempt [of demo "[]" ?p "''page-small''" ?small "''small-bytes''"
                                  "deal_of ''x1'' ?p" "''x1''"]
          p1 p2 p3 p4 p5 p6 by simp
  have q1: "getHtml demo [] ?q = Inr ''page-large''" by code_simp
  have q2: "pick_image demo (cheerio_load demo ''page-large'') ?q = Some ?large" by code_simp
  have q3: "?large \<noteq> [] \<and> \<not> isTrackingPixelUrl ?large" by code_simp
  have q4: "getBuffer demo ([] @ [GetHtml ?q]) ?large (Some ?q) = Inr ''large-bytes''"
    by code_simp
  have q5: "sharp_metadata demo ''large-bytes'' = Some \<lparr>width = Some 200, height = Some 200\<rparr>"
    by (simp add: demo_def demo_metadata_def)
  have b: "downloads (snd (try_block demo [] (deal_of ''x2'' ?q) ''x2'' ?q)) = [?large]"
    using one_fallback_attempt [of demo "[]" ?q "''page-large''" ?large "''large-bytes''"
                                  "deal_of ''x2'' ?q" "''x2''"]
          q1 q2 q3 q4 q5 by simp
  from a b show ?thesis by (rule conjI)
qed

subsection \<open>The selection policy\<close>

lemma absolutize_falsy: "\<not> truthy v \<Longrightarrow> absolutize E v b = None"
  by (cases v) simp_all

lemma pick_image_policy:
  "pick_image E S url = absolutize E (first_nonempty (extractor_order E S url)) (Some url)"
proof (cases "isAmazonUrl E url")
  case True
  then show ?thesis
    unfolding pick_image_def extractor_order_def
    by (simp add: js_or_def absolutize_falsy)
next
  case False
  then show ?thesis
    unfolding pick_image_def extractor_order_def
    by (simp add: js_or_def absolutize_falsy)
qed

lemma loop_body_processable:
  assumes "\<not> truthy_str (deal_image d)" "deal_url d = Some u" "u \<noteq> []"
    and "deal_id d = Some i" "i \<noteq> []"
  shows "loop_body E h d =
     (case try_block E h d i u of
        (Threw (Error msg), es) \<Rightarrow>
          (d, es @ [ConsoleError (CHR 0xD7 # '' '' @ i @ '': '' @ msg)], False)
      | (Continued, es) \<Rightarrow> (d, es, False)
      | (Saved d', es) \<Rightarrow> (d', es, True))"
  using assms by (simp add: loop_body_def)

lemma try_block_no_image:
  assumes "getHtml E h u = Inr html"
    and "pick_image E (cheerio_load E html) u = None
         \<or> (\<exists>c. pick_image E (cheerio_load E html) u = Some c \<and> (c = [] \<or> isTrackingPixelUrl c))"
  shows "try_block E h d i u =
           (Continued, [GetHtml u, Warn (''! '' @ i @ '': no usable image found'')])"
proof (cases "pick_image E (cheerio_load E html) u")
  case None
  then show ?thesis using assms(1) by (simp add: try_block_def Let_def)
next
  case (Some c)
  then have "c = [] \<or> isTrackingPixelUrl c" using assms(2) by simp
  then show ?thesis using assms(1) Some by (auto simp: try_block_def Let_def)
qed

text \<open>
  Claim C2. The address \<open>main\<close> selects for a record is \<open>absolutize\<close>, against the
  record's \<open>url\<close>, of the first result that is not empty in the order of the extractors:
  marketplace, meta, structured data, generic when \<open>url\<close> is an Amazon address, and meta,
  structured data, generic otherwise. If the page was fetched and the selected address
  is missing, empty or a tracking pixel, the round of the loop ends with the warning as
  its only output after the page request, and leaves the record as it was, \<open>image\<close> unset.
\<close>

theorem selection_policy:
  "pick_image E S url = absolutize E (first_nonempty (extractor_order E S url)) (Some url)
   \<and> (\<not> truthy_str (deal_image d) \<and> deal_url d = Some url \<and> url \<noteq> []
        \<and> deal_id d = Some ident \<and> ident \<noteq> []
        \<and> getHtml E h url = Inr html
        \<and> (pick_image E (cheerio_load E html) url = None
            \<or> (\<exists>c. pick_image E (cheerio_load E html) url = Some c
                    \<and> (c = [] \<or> isTrackingPixelUrl c)))
      \<longrightarrow> loop_body E h d =
            (d, [GetHtml url, Warn (''! '' @ ident @ '': no usable image found'')], False))"
proof (intro conjI impI)
  show "pick_image E S url = absolutize E (first_nonempty (extractor_order E S url)) (Some url)"
    by (rule pick_image_policy)
next
  assume a: "\<not> truthy_str (deal_image d) \<and> deal_url d = Some url \<and> url \<noteq> []
        \<and> deal_id d = Some ident \<and> ident \<noteq> []
        \<and> getHtml E h url = Inr html
        \<and> (pick_image E (cheerio_load E html) url = None
            \<or> (\<exists>c. pick_image E (cheerio_load E html) url = Some c
                    \<and> (c = [] \<or> isTrackingPixelUrl c)))"
  then have t: "try_block E h d ident url =
           (Continued, [GetHtml url, Warn (''! '' @ ident @ '': no usable image found'')])"
    using try_block_no_image [of E h url html d ident] by blast
  from a have "loop_body E h d =
     (case try_block E h d ident url of
        (Threw (Error msg), es) \<Rightarrow>
          (d, es @ [ConsoleError (CHR 0xD7 # '' '' @ ident @ '': '' @ msg)], False)
      | (Continued, es) \<Rightarrow> (d, es, False)
      | (Saved d', es) \<Rightarrow> (d', es, True))"
    using loop_body_processable [of d url ident E h] by blast
  then show "loop_body E h d =
            (d, [GetHtml url, Warn (''! '' @ ident @ '': no usable image found'')], False)"
    using t by simp
qed

theorem selection_policy_witness:
  "pick_image demo (demo_page ''page-amazon'') ''https://www.amazon.com/dp/B0''
     = Some ''https://m.media-amazon.com/images/I/x.jpg''
   \<and> pick_image demo (demo_page ''page-small'') ''https://example.com/p''
     = Some ''https://example.com/img/small.jpg''
   \<and> loop_body demo [] (deal_of ''x5'' ''https://example.com/t'')
     = (deal_of ''x5'' ''https://example.com/t'',
        [GetHtml ''https://example.com/t'', Warn ''! x5: no usable image found''], False)"
proof -
  let ?a = "''https://www.amazon.com/dp/B0''" and ?p = "''https://example.com/p''"
  let ?t = "''https://example.com/t''"
  have a: "absolutize demo (first_nonempty (extractor_order demo (demo_page ''page-amazon'') ?a))
             (Some ?a) = Some ''https://m.media-amazon.com/images/I/x.jpg''" by code_simp
  have b: "absolutize demo (first_nonempty (extractor_order demo (demo_page ''page-small'') ?p))
             (Some ?p) = Some ''https://example.com/img/small.jpg''" by code_simp
  have c1: "\<not> truthy_str (deal_image (deal_of ''x5'' ?t)) \<and> deal_url (deal_of ''x5'' ?t) = Some ?t
        \<and> ?t \<noteq> [] \<and> deal_id (deal_of ''x5'' ?t) = Some ''x5'' \<and> ''x5'' \<noteq> []"
    by (simp add: deal_of_def)
  have c2: "getHtml demo [] ?t = Inr ''page-pixel''" by code_simp
  have c3: "pick_image demo (cheerio_load demo ''page-pixel'') ?t = Some ''https://example.com/pixel.gif''
            \<and> isTrackingPixelUrl ''https://example.com/pixel.gif''" by code_simp
  have c: "loop_body demo [] (deal_of ''x5'' ?t)
     = (deal_of ''x5'' ?t, [GetHtml ?t, Warn (''! '' @ ''x5'' @ '': no usable image found'')], False)"
    using selection_policy [of demo _ ?t "deal_of ''x5'' ?t" "''x5''" "[]" "''page-pixel''"]
          c1 c2 c3 by blast
  show ?thesis
    using selection_policy [of demo "demo_page ''page-amazon''" ?a]
          selection_policy [of demo "demo_page ''page-small''" ?p] a b c
    by simp
qed

subsection \<open>The ways through one round of the loop\<close>

lemma save_stage_cases:
  obtains
    (resize_failed) e where "sharp_webp E buf = Inl e" "save_stage E h d i buf = (Threw e, [])"
  | (write_failed) webp e where "sharp_webp E buf = Inr webp"
      "writeFile E h (path_join E (PUBLIC_IMG_DIR E) (i @ ''.webp'')) webp = Some e"
      "save_stage E h d i buf =
         (Threw e, [WriteFile (path_join E (PUBLIC_IMG_DIR E) (i @ ''.webp'')) webp])"
  | (saved) webp where "sharp_webp E buf = Inr webp"
      "writeFile E h (path_join E (PUBLIC_IMG_DIR E) (i @ ''.webp'')) webp = None"
      "save_stage E h d i buf =
         (Saved (d\<lparr>deal_image := Some (''/images/'' @ i @ ''.webp''),
                    deal_imageAlt := (if truthy_str (deal_imageAlt d) then deal_imageAlt d
                                      else deal_title d)\<rparr>),
          [WriteFile (path_join E (PUBLIC_IMG_DIR E) (i @ ''.webp'')) webp, Sleep 400])"
proof (cases "sharp_webp E buf")
  case (Inl e)
  then have "save_stage E h d i buf = (Threw e, [])" by (simp add: save_stage_def Let_def)
  then show ?thesis using Inl resize_failed by blast
next
  case (Inr webp)
  show ?thesis
  proof (cases "writeFile E h (path_join E (PUBLIC_IMG_DIR E) (i @ ''.webp'')) webp")
    case None
    then have "save_stage E h d i buf =
         (Saved (d\<lparr>deal_image := Some (''/images/'' @ i @ ''.webp''),
                    deal_imageAlt := (if truthy_str (deal_imageAlt d) then deal_imageAlt d
                                      else deal_title d)\<rparr>),
          [WriteFile (path_join E (PUBLIC_IMG_DIR E) (i @ ''.webp'')) webp, Sleep 400])"
      using Inr by (simp add: save_stage_def Let_def)
    then show ?thesis using Inr None saved by blast
  next
    case (Some e)
    then have "save_stage E h d i buf =
         (Threw e, [WriteFile (path_join E (PUBLIC_IMG_DIR E) (i @ ''.webp'')) webp])"
      using Inr by (simp add: save_stage_def Let_def)
    then show ?thesis using Inr Some write_failed by blast
  qed
qed

lemma try_block_cases:
  obtains
    (page_failed) e where "getHtml E h u = Inl e" "try_block E h d i u = (Threw e, [GetHtml u])"
  | (no_image) html where "getHtml E h u = Inr html"
      "pick_image E (cheerio_load E html) u = None
       \<or> (\<exists>c. pick_image E (cheerio_load E html) u = Some c \<and> (c = [] \<or> isTrackingPixelUrl c))"
      "try_block E h d i u =
         (Continued, [GetHtml u, Warn (''! '' @ i @ '': no usable image found'')])"
  | (image_failed) html c e where "getHtml E h u = Inr html"
      "pick_image E (cheerio_load E html) u = Some c" "c \<noteq> []" "\<not> isTrackingPixelUrl c"
      "getBuffer E (h @ [GetHtml u]) c (Some u) = Inl e"
      "try_block E h d i u = (Threw e, [GetHtml u, GetBuffer c (Some u)])"
  | (fallback_failed) html c buf e es where "getHtml E h u = Inr html"
      "pick_image E (cheerio_load E html) u = Some c" "c \<noteq> []" "\<not> isTrackingPixelUrl c"
      "getBuffer E (h @ [GetHtml u]) c (Some u) = Inr buf"
      "fallback_stage E (h @ [GetHtml u, GetBuffer c (Some u)]) (cheerio_load E html) u c buf
         = (Inl e, es)"
      "try_block E h d i u = (Threw e, [GetHtml u, GetBuffer c (Some u)] @ es)"
  | (downloaded) html c buf buf' es where "getHtml E h u = Inr html"
      "pick_image E (cheerio_load E html) u = Some c" "c \<noteq> []" "\<not> isTrackingPixelUrl c"
      "getBuffer E (h @ [GetHtml u]) c (Some u) = Inr buf"
      "fallback_stage E (h @ [GetHtml u, GetBuffer c (Some u)]) (cheerio_load E html) u c buf
         = (Inr buf', es)"
      "try_block E h d i u =
         (fst (save_stage E (h @ [GetHtml u, GetBuffer c (Some u)] @ es) d i buf'),
          [GetHtml u, GetBuffer c (Some u)] @ es
          @ snd (save_stage E (h @ [GetHtml u, GetBuffer c (Some u)] @ es) d i buf'))"
proof (cases "getHtml E h u")
  case (Inl e)
  then have "try_block E h d i u = (Threw e, [GetHtml u])" by (simp add: try_block_def)
  then show ?thesis using Inl page_failed by blast
next
  case (Inr html)
  show ?thesis
  proof (cases "pick_image E (cheerio_load E html) u = None
       \<or> (\<exists>c. pick_image E (cheerio_load E html) u = Some c \<and> (c = [] \<or> isTrackingPixelUrl c))")
    case True
    then show ?thesis using try_block_no_image [OF Inr True] Inr no_image by blast
  next
    case False
    then obtain c where c: "pick_image E (cheerio_load E html) u = Some c" "c \<noteq> []"
      "\<not> isTrackingPixelUrl c" by (cases "pick_image E (cheerio_load E html) u") auto
    show ?thesis
    proof (cases "getBuffer E (h @ [GetHtml u]) c (Some u)")
      case (Inl e)
      then have "try_block E h d i u = (Threw e, [GetHtml u, GetBuffer c (Some u)])"
        using Inr c by (simp add: try_block_def Let_def)
      then show ?thesis using Inr c Inl image_failed by blast
    next
      case buf: (Inr buf)
      let ?h1 = "[GetHtml u, GetBuffer c (Some u)]"
      obtain r es where f: "fallback_stage E (h @ ?h1) (cheerio_load E html) u c buf = (r, es)"
        by (cases "fallback_stage E (h @ ?h1) (cheerio_load E html) u c buf")
      show ?thesis
      proof (cases r)
        case (Inl e)
        then have "try_block E h d i u = (Threw e, ?h1 @ es)"
          using Inr c buf f by (simp add: try_block_def Let_def)
        then show ?thesis using Inr c buf f Inl fallback_failed by blast
      next
        case r: (Inr buf')
        obtain out es' where s: "save_stage E (h @ ?h1 @ es) d i buf' = (out, es')"
          by (cases "save_stage E (h @ ?h1 @ es) d i buf'")
        have "try_block E h d i u = (out, ?h1 @ es @ es')"
          using Inr c buf f r s by (simp add: try_block_def Let_def)
        then have "try_block E h d i u =
         (fst (save_stage E (h @ ?h1 @ es) d i buf'),
          ?h1 @ es @ snd (save_stage E (h @ ?h1 @ es) d i buf'))" using s by simp
        then show ?thesis using Inr c buf f r downloaded by blast
      qed
    qed
  qed
qed

subsection \<open>The addresses handed to the download\<close>

lemma absolutize_scheme:
  assumes "\<forall>s b u. URL E s b = Some u \<longrightarrow> has_scheme (href u)"
    and "absolutize E v base = Some r"
  shows "has_scheme r"
proof (cases v)
  case (JStr s)
  show ?thesis
  proof (cases "startsWith s ''//''")
    case True
    then have "r = ''https:'' @ s" using assms(2) JStr by (cases "s = []") simp_all
    then show ?thesis using has_scheme_https by simp
  next
    case ns: False
    show ?thesis
    proof (cases "startsWith s ''http://'' \<or> startsWith s ''https://''")
      case True
      then obtain t where "s = ''http://'' @ t \<or> s = ''https://'' @ t"
        using startsWithE by blast
      then have "has_scheme s" using has_scheme_http2 has_scheme_https2 by metis
      moreover have "r = s" using assms(2) JStr ns True by (cases "s = []") simp_all
      ultimately show ?thesis by simp
    next
      case False
      then obtain u where "URL E s base = Some u" "r = href u"
        using assms(2) JStr ns by (cases "s = []"; cases "URL E s base") simp_all
      then show ?thesis using assms(1) by blast
    qed
  qed
qed (use assms(2) in simp_all)

lemma alternate_set:
  "f \<in> set (alternate E S u c) \<Longrightarrow>
     f \<noteq> [] \<and> \<not> isTrackingPixelUrl f
     \<and> absolutize E (of_str (pickFirstLargeImg E S (Some u))) (Some u) = Some f"
  by (cases "absolutize E (of_str (pickFirstLargeImg E S (Some u))) (Some u)")
     (auto simp: alternate_def split: if_splits)

lemma try_block_downloads_set:
  assumes "x \<in> set (downloads (snd (try_block E h d i u)))"
  shows "x \<noteq> [] \<and> \<not> isTrackingPixelUrl x \<and> (\<exists>v. absolutize E v (Some u) = Some x)"
proof (cases rule: try_block_cases [of E h u d i])
  case (page_failed e)
  then show ?thesis using assms by simp
next
  case (no_image html)
  then show ?thesis using assms by simp
next
  case (image_failed html c e)
  then have "x = c" using assms by simp
  then show ?thesis using image_failed(2-4) unfolding pick_image_def by blast
next
  case (fallback_failed html c buf e es)
  have "downloads (snd (try_block E h d i u)) =
           c # (if too_tiny (sharp_metadata E buf) then alternate E (cheerio_load E html) u c else [])"
    using try_block_downloaded [OF fallback_failed(1-5)] .
  then have "x = c \<or> x \<in> set (alternate E (cheerio_load E html) u c)"
    using assms by (auto split: if_splits)
  then show ?thesis
  proof
    assume "x = c"
    then show ?thesis using fallback_failed(2-4) unfolding pick_image_def by blast
  next
    assume "x \<in> set (alternate E (cheerio_load E html) u c)"
    then show ?thesis using alternate_set by blast
  qed
next
  case (downloaded html c buf buf' es)
  have "downloads (snd (try_block E h d i u)) =
           c # (if too_tiny (sharp_metadata E buf) then alternate E (cheerio_load E html) u c else [])"
    using try_block_downloaded [OF downloaded(1-5)] .
  then have "x = c \<or> x \<in> set (alternate E (cheerio_load E html) u c)"
    using assms by (auto split: if_splits)
  then show ?thesis
  proof
    assume "x = c"
    then show ?thesis using downloaded(2-4) unfolding pick_image_def by blast
  next
    assume "x \<in> set (alternate E (cheerio_load E html) u c)"
    then show ?thesis using alternate_set by blast
  qed
qed

lemma loop_body_downloads_set:
  assumes "x \<in> set (downloads (fst (snd (loop_body E h d))))"
  shows "x \<noteq> [] \<and> \<not> isTrackingPixelUrl x \<and> (\<exists>v b. absolutize E v b = Some x)"
proof -
  from loop_body_events [of E h d] assms
  obtain i u where "x \<in> set (downloads (snd (try_block E h d i u)))"
    by (auto simp: downloads_append)
  then show ?thesis using try_block_downloads_set by blast
qed

lemma main_loop_downloads_set:
  "x \<in> set (downloads (fst (snd (main_loop E h ch ds)))) \<Longrightarrow>
     x \<noteq> [] \<and> \<not> isTrackingPixelUrl x \<and> (\<exists>v b. absolutize E v b = Some x)"
proof (induction ds arbitrary: h ch)
  case Nil
  then show ?case by simp
next
  case (Cons d ds)
  obtain d' es c where b: "loop_body E h d = (d', es, c)" by (cases "loop_body E h d")
  obtain ds' es' ch' where r: "main_loop E (h @ es) (ch \<or> c) ds = (ds', es', ch')"
    by (cases "main_loop E (h @ es) (ch \<or> c) ds")
  have "fst (snd (main_loop E h ch (d # ds))) = es @ es'" using b r by simp
  then have "x \<in> set (downloads es) \<or> x \<in> set (downloads es')"
    using Cons.prems by (simp add: downloads_append)
  then show ?case
  proof
    assume "x \<in> set (downloads es)"
    then show ?thesis using loop_body_downloads_set [of x E h d] b by simp
  next
    assume "x \<in> set (downloads es')"
    then show ?thesis using Cons.IH [of "h @ es" "ch \<or> c"] r by simp
  qed
qed

lemma main_downloads: "downloads (snd (main E deals)) = downloads (fst (snd (main_loop E [] False deals)))"
proof -
  obtain ds' es ch where r: "main_loop E [] False deals = (ds', es, ch)"
    by (cases "main_loop E [] False deals")
  then show ?thesis by (cases ch) (simp_all add: main_def downloads_append)
qed

lemma find_in_set: "find P xs = Some x \<Longrightarrow> x \<in> set xs"
  by (induction xs) (auto split: if_splits)

lemma pickFirstLargeImg_mem:
  assumes "pickFirstLargeImg E S base = Some g"
  shows "Some g \<in> set (filter usable (map (\<lambda>u. absolutize E (JStr u) base) (collect E S)))"
proof -
  let ?cs = "filter usable (map (\<lambda>u. absolutize E (JStr u) base) (collect E S))"
  let ?P = "\<lambda>u. case u of None \<Rightarrow> False
                       | Some s \<Rightarrow> search (lit_ci ''m.media-amazon.com/images/'' accept) s"
  show ?thesis
  proof (cases "find ?P ?cs")
    case None
    then have "(case ?cs of [] \<Rightarrow> None | c # _ \<Rightarrow> c) = Some g"
      using assms by (simp add: pickFirstLargeImg_def)
    then show ?thesis by (cases ?cs) auto
  next
    case (Some p)
    then have "p = Some g" using assms by (simp add: pickFirstLargeImg_def)
    then show ?thesis using find_in_set [OF Some] by simp
  qed
qed

lemma pickFirstLargeImg_usable: "pickFirstLargeImg E S base = Some g \<Longrightarrow> usable (Some g)"
  using pickFirstLargeImg_mem [of E S base g] by simp

text \<open>
  Claim C3, as the code has it. Every address handed to \<open>getBuffer\<close> in a run, the first
  candidate of a record or its fallback, is not empty and not a tracking pixel, and it
  begins with a scheme as long as every href of the URL constructor does. Whatever the
  generic extractor \<open>pickFirstLargeImg\<close> returns is, besides, not a \<open>data:\<close> address,
  and the fallback candidate is \<open>absolutize\<close> of such a result. The first candidate is
  not checked for the scheme \<open>data:\<close> when another extractor has produced it.
\<close>

theorem download_candidates:
  "(\<forall>c\<in>set (downloads (snd (main E deals))). c \<noteq> [] \<and> \<not> isTrackingPixelUrl c)
   \<and> ((\<forall>s b u. URL E s b = Some u \<longrightarrow> has_scheme (href u))
        \<longrightarrow> (\<forall>c\<in>set (downloads (snd (main E deals))). has_scheme c))
   \<and> (pickFirstLargeImg E S base = Some g
        \<longrightarrow> g \<noteq> [] \<and> \<not> isTrackingPixelUrl g \<and> \<not> lit_ci ''data:'' accept g)
   \<and> (f \<in> set (alternate E S url c)
        \<longrightarrow> (\<exists>g. pickFirstLargeImg E S (Some url) = Some g
                 \<and> \<not> lit_ci ''data:'' accept g
                 \<and> absolutize E (JStr g) (Some url) = Some f))"
proof (intro conjI impI ballI)
  fix c assume "c \<in> set (downloads (snd (main E deals)))"
  then show "c \<noteq> []" "\<not> isTrackingPixelUrl c"
    using main_loop_downloads_set [of c E "[]" False deals] by (simp_all add: main_downloads)
next
  fix c assume h: "\<forall>s b u. URL E s b = Some u \<longrightarrow> has_scheme (href u)"
    and "c \<in> set (downloads (snd (main E deals)))"
  then obtain v b where "absolutize E v b = Some c"
    using main_loop_downloads_set [of c E "[]" False deals] by (auto simp: main_downloads)
  then show "has_scheme c" using absolutize_scheme [OF h] by blast
next
  assume "pickFirstLargeImg E S base = Some g"
  then have u: "usable (Some g)" by (rule pickFirstLargeImg_usable)
  then show "g \<noteq> []" "\<not> isTrackingPixelUrl g" "\<not> lit_ci ''data:'' accept g"
    by (simp_all add: usable_def)
next
  assume "f \<in> set (alternate E S url c)"
  then have a: "absolutize E (of_str (pickFirstLargeImg E S (Some url))) (Some url) = Some f"
    using alternate_set by blast
  then obtain g where g: "pickFirstLargeImg E S (Some url) = Some g"
    by (cases "pickFirstLargeImg E S (Some url)") simp_all
  then have "usable (Some g)" by (rule pickFirstLargeImg_usable)
  then have "\<not> lit_ci ''data:'' accept g" by (simp add: usable_def)
  then show "\<exists>g. pickFirstLargeImg E S (Some url) = Some g
                 \<and> \<not> lit_ci ''data:'' accept g
                 \<and> absolutize E (JStr g) (Some url) = Some f"
    using a g by simp
qed

theorem download_candidates_witness:
  "has_scheme ''https://example.com/img/small.jpg''
   \<and> \<not> isTrackingPixelUrl ''https://example.com/img/small.jpg''
   \<and> has_scheme ''https://example.com/img/big.jpg''
   \<and> \<not> lit_ci ''data:'' accept ''https://example.com/img/big.jpg''"
proof -
  let ?ds = "[deal_of ''x1'' ''https://example.com/p'']"
  have h: "\<forall>s b u. URL demo s b = Some u \<longrightarrow> has_scheme (href u)"
    using demo_href_scheme by (simp add: demo_def)
  have d: "downloads (snd (main demo ?ds))
             = [''https://example.com/img/small.jpg'', ''https://example.com/img/big.jpg'']"
    by code_simp
  have g: "pickFirstLargeImg demo (demo_page ''page-small'') (Some ''https://example.com/p'')
             = Some ''https://example.com/img/big.jpg''" by code_simp
  note t = download_candidates [of demo ?ds "demo_page ''page-small''"
             "Some ''https://example.com/p''" "''https://example.com/img/big.jpg''"]
  from t h d g show ?thesis by simp
qed

text \<open>
  Claim C3 as it is written excludes \<open>data:\<close> addresses from the download. A page whose
  \<open>og:image\<close> is a \<open>data:\<close> address has it selected by \<open>pickOgImage\<close>, which does not
  filter, and \<open>main\<close> checks the selected address for tracking pixels only: the address
  handed to \<open>getBuffer\<close> is the \<open>data:\<close> address.
\<close>

theorem download_data_url_counterexample:
  "downloads (snd (main demo [deal_of ''x3'' ''https://example.com/d'']))
     = [''data:image/png;base64,AAAA'']
   \<and> lit_ci ''data:'' accept ''data:image/png;base64,AAAA''"
  by code_simp

subsection \<open>The loop over the catalog\<close>

lemma catalog_writes_append: "catalog_writes (a @ b) = catalog_writes a @ catalog_writes b"
  by (induction a rule: catalog_writes.induct) simp_all

lemma fallback_stage_events:
  "snd (fallback_stage E h S u c buf) = []
   \<or> (\<exists>f. snd (fallback_stage E h S u c buf) = [GetBuffer f (Some u)])"
  by (cases "absolutize E (of_str (pickFirstLargeImg E S (Some u))) (Some u)")
     (simp_all add: fallback_stage_def Let_def)

lemma save_stage_writes: "catalog_writes (snd (save_stage E h d i buf)) = []"
  by (cases rule: save_stage_cases [of E buf h d i]) simp_all

lemma try_block_writes: "catalog_writes (snd (try_block E h d i u)) = []"
proof (cases rule: try_block_cases [of E h u d i])
  case (fallback_failed html c buf e es)
  then show ?thesis
    using fallback_stage_events [of E "h @ [GetHtml u, GetBuffer c (Some u)]" "cheerio_load E html" u c buf]
    by auto
next
  case (downloaded html c buf buf' es)
  then show ?thesis
    using fallback_stage_events [of E "h @ [GetHtml u, GetBuffer c (Some u)]" "cheerio_load E html" u c buf]
      save_stage_writes [of E "h @ [GetHtml u, GetBuffer c (Some u)] @ es" d i buf']
    by (auto simp: catalog_writes_append)
qed simp_all

lemma try_block_saved:
  assumes "fst (try_block E h d i u) = Saved d'"
  shows "d' = d\<lparr>deal_image := Some (''/images/'' @ i @ ''.webp''),
                 deal_imageAlt := (if truthy_str (deal_imageAlt d) then deal_imageAlt d
                                   else deal_title d)\<rparr>"
proof (cases rule: try_block_cases [of E h u d i])
  case (downloaded html c buf buf' es)
  then have s: "fst (save_stage E (h @ [GetHtml u, GetBuffer c (Some u)] @ es) d i buf') = Saved d'"
    using assms by simp
  show ?thesis
    by (cases rule: save_stage_cases [of E buf' "h @ [GetHtml u, GetBuffer c (Some u)] @ es" d i])
       (use s in simp_all)
qed (use assms in simp_all)

lemma loop_body_cases:
  obtains
    (untouched) "loop_body E h d = (d, [], False)"
      "truthy_str (deal_image d) \<or> \<not> truthy_str (deal_url d) \<or> \<not> truthy_str (deal_id d)"
  | (threw) i u msg where "\<not> truthy_str (deal_image d)" "deal_url d = Some u" "u \<noteq> []"
      "deal_id d = Some i" "i \<noteq> []" "fst (try_block E h d i u) = Threw (Error msg)"
      "loop_body E h d =
         (d, snd (try_block E h d i u) @ [ConsoleError (CHR 0xD7 # '' '' @ i @ '': '' @ msg)],
          False)"
  | (continued) i u where "\<not> truthy_str (deal_image d)" "deal_url d = Some u" "u \<noteq> []"
      "deal_id d = Some i" "i \<noteq> []" "fst (try_block E h d i u) = Continued"
      "loop_body E h d = (d, snd (try_block E h d i u), False)"
  | (saved) i u d' where "\<not> truthy_str (deal_image d)" "deal_url d = Some u" "u \<noteq> []"
      "deal_id d = Some i" "i \<noteq> []" "fst (try_block E h d i u) = Saved d'"
      "loop_body E h d = (d', snd (try_block E h d i u), True)"
proof (cases "truthy_str (deal_image d) \<or> \<not> truthy_str (deal_url d) \<or> \<not> truthy_str (deal_id d)")
  case True
  then have "loop_body E h d = (d, [], False)"
    by (cases "deal_url d"; cases "deal_id d") (auto simp: loop_body_def)
  then show ?thesis using True untouched by blast
next
  case False
  then obtain i u where p: "\<not> truthy_str (deal_image d)" "deal_url d = Some u" "u \<noteq> []"
      "deal_id d = Some i" "i \<noteq> []"
    by (cases "deal_url d"; cases "deal_id d") auto
  note lb = loop_body_processable [OF p, of E h]
  obtain out es where t: "try_block E h d i u = (out, es)" by (cases "try_block E h d i u")
  show ?thesis
  proof (cases out)
    case (Threw e)
    obtain msg where e: "e = Error msg" by (cases e)
    have "loop_body E h d =
         (d, snd (try_block E h d i u) @ [ConsoleError (CHR 0xD7 # '' '' @ i @ '': '' @ msg)],
          False)" using lb t Threw e by simp
    then show ?thesis using p t Threw e threw [of u i msg] by simp
  next
    case Continued
    have "loop_body E h d = (d, snd (try_block E h d i u), False)" using lb t Continued by simp
    then show ?thesis using p t Continued continued [of u i] by simp
  next
    case (Saved d')
    have "loop_body E h d = (d', snd (try_block E h d i u), True)" using lb t Saved by simp
    then show ?thesis using p t Saved saved [of u i d'] by simp
  qed
qed

lemma loop_body_changed:
  assumes "loop_body E h d = (d', es, c)"
  shows "c = (d' \<noteq> d) \<and> catalog_writes es = []"
proof (cases rule: loop_body_cases [of E h d])
  case untouched
  then show ?thesis using assms by simp
next
  case (threw i u msg)
  then show ?thesis using assms try_block_writes [of E h d i u]
    by (auto simp: catalog_writes_append)
next
  case (continued i u)
  then show ?thesis using assms try_block_writes [of E h d i u] by auto
next
  case (saved i u d'')
  have "deal_image d'' = Some (''/images/'' @ i @ ''.webp'')"
    using try_block_saved [OF saved(6)] by simp
  then have "truthy_str (deal_image d'')" by simp
  then have "d'' \<noteq> d" using saved(1) by auto
  then show ?thesis using saved assms try_block_writes [of E h d i u] by auto
qed

lemma main_loop_changed:
  "main_loop E h ch ds = (ds', es, ch') \<Longrightarrow>
     ch' = (ch \<or> ds' \<noteq> ds) \<and> catalog_writes es = [] \<and> length ds' = length ds"
proof (induction ds arbitrary: h ch ds' es ch')
  case Nil
  then show ?case by auto
next
  case (Cons d ds)
  obtain d1 es1 c where b: "loop_body E h d = (d1, es1, c)" by (cases "loop_body E h d")
  obtain ds2 es2 ch2 where r: "main_loop E (h @ es1) (ch \<or> c) ds = (ds2, es2, ch2)"
    by (cases "main_loop E (h @ es1) (ch \<or> c) ds")
  from Cons.prems b r have eq: "ds' = d1 # ds2" "es = es1 @ es2" "ch' = ch2" by simp_all
  from loop_body_changed [OF b] have c: "c = (d1 \<noteq> d)" "catalog_writes es1 = []" by simp_all
  from Cons.IH [OF r] have ih: "ch2 = ((ch \<or> c) \<or> ds2 \<noteq> ds)" "catalog_writes es2 = []"
    "length ds2 = length ds" by simp_all
  show ?case using eq c ih by (auto simp: catalog_writes_append)
qed

lemma main_loop_untouched:
  "main_loop E h ch ds = (ds', es, ch') \<Longrightarrow> k < length ds \<Longrightarrow>
     truthy_str (deal_image (ds ! k)) \<Longrightarrow> ds' ! k = ds ! k"
proof (induction ds arbitrary: h ch ds' es ch' k)
  case Nil
  then show ?case by simp
next
  case (Cons d ds)
  obtain d1 es1 c where b: "loop_body E h d = (d1, es1, c)" by (cases "loop_body E h d")
  obtain ds2 es2 ch2 where r: "main_loop E (h @ es1) (ch \<or> c) ds = (ds2, es2, ch2)"
    by (cases "main_loop E (h @ es1) (ch \<or> c) ds")
  from Cons.prems(1) b r have eq: "ds' = d1 # ds2" by simp
  show ?case
  proof (cases k)
    case 0
    then have "truthy_str (deal_image d)" using Cons.prems(3) by simp
    then have "d1 = d" using b by (simp add: loop_body_def)
    then show ?thesis using eq 0 by simp
  next
    case (Suc j)
    then show ?thesis using Cons.IH [OF r, of j] Cons.prems(2,3) eq by simp
  qed
qed

lemma main_loop_all_enriched:
  "\<forall>d\<in>set ds. truthy_str (deal_image d) \<Longrightarrow> main_loop E h ch ds = (ds, [], ch)"
proof (induction ds arbitrary: h ch)
  case Nil
  then show ?case by simp
next
  case (Cons d ds)
  then have "loop_body E h d = (d, [], False)" by (simp add: loop_body_def)
  then show ?case using Cons by simp
qed

lemma main_loop_continues:
  assumes "loop_body E h d = (d, es, False)"
  shows "main_loop E h changed (d # ds) =
           (case main_loop E (h @ es) changed ds of
              (ds', es', ch') \<Rightarrow> (d # ds', es @ es', ch'))"
  using assms by simp

text \<open>
  Claim C5. For a record the loop works on (no \<open>image\<close>, an \<open>id\<close> and a \<open>url\<close>): a
  failure of the page request, of the image download, of the fallback download, of the
  resize or of the file write makes the \<open>try\<close> block throw. When the block throws, the
  round prints the error and leaves the whole record, its \<open>image\<close> included, as it was;
  when no usable image is found (the extraction gives nothing) it leaves the record as it
  was, too. In both cases the loop goes on with the records that follow, in the state the
  round has left.
\<close>

theorem failure_is_isolated:
  assumes "\<not> truthy_str (deal_image d)" "deal_url d = Some url" "url \<noteq> []"
    and "deal_id d = Some ident" "ident \<noteq> []"
  shows
   "(getHtml E h url = Inl e \<longrightarrow> fst (try_block E h d ident url) = Threw e)
    \<and> (getHtml E h url = Inr html
         \<and> pick_image E (cheerio_load E html) url = Some c \<and> c \<noteq> [] \<and> \<not> isTrackingPixelUrl c
       \<longrightarrow>
         (getBuffer E (h @ [GetHtml url]) c (Some url) = Inl e
            \<longrightarrow> fst (try_block E h d ident url) = Threw e)
       \<and> (getBuffer E (h @ [GetHtml url]) c (Some url) = Inr buf
            \<and> fallback_stage E (h @ [GetHtml url, GetBuffer c (Some url)])
                 (cheerio_load E html) url c buf = (r, es)
          \<longrightarrow>
            (r = Inl e \<longrightarrow> fst (try_block E h d ident url) = Threw e)
          \<and> (r = Inr buf' \<and> sharp_webp E buf' = Inl e
                \<longrightarrow> fst (try_block E h d ident url) = Threw e)
          \<and> (r = Inr buf' \<and> sharp_webp E buf' = Inr webp
                \<and> writeFile E (h @ [GetHtml url, GetBuffer c (Some url)] @ es)
                     (path_join E (PUBLIC_IMG_DIR E) (ident @ ''.webp'')) webp = Some e
                \<longrightarrow> fst (try_block E h d ident url) = Threw e)))
    \<and> (fst (try_block E h d ident url) = Threw (Error msg)
       \<longrightarrow> loop_body E h d =
             (d, snd (try_block E h d ident url)
                 @ [ConsoleError (CHR 0xD7 # '' '' @ ident @ '': '' @ msg)], False))
    \<and> (fst (try_block E h d ident url) = Continued
       \<longrightarrow> loop_body E h d = (d, snd (try_block E h d ident url), False))
    \<and> (fst (try_block E h d ident url) = Threw e' \<or> fst (try_block E h d ident url) = Continued
       \<longrightarrow> fst (loop_body E h d) = d
          \<and> main_loop E h changed (d # ds) =
              (case main_loop E (h @ fst (snd (loop_body E h d))) changed ds of
                 (ds', es', ch') \<Rightarrow> (d # ds', fst (snd (loop_body E h d)) @ es', ch')))"
proof -
  note lb = loop_body_processable [OF assms, of E h]
  have c1: "getHtml E h url = Inl e \<longrightarrow> fst (try_block E h d ident url) = Threw e"
    by (simp add: try_block_def)
  have c2: "getHtml E h url = Inr html
         \<and> pick_image E (cheerio_load E html) url = Some c \<and> c \<noteq> [] \<and> \<not> isTrackingPixelUrl c
       \<longrightarrow>
         (getBuffer E (h @ [GetHtml url]) c (Some url) = Inl e
            \<longrightarrow> fst (try_block E h d ident url) = Threw e)
       \<and> (getBuffer E (h @ [GetHtml url]) c (Some url) = Inr buf
            \<and> fallback_stage E (h @ [GetHtml url, GetBuffer c (Some url)])
                 (cheerio_load E html) url c buf = (r, es)
          \<longrightarrow>
            (r = Inl e \<longrightarrow> fst (try_block E h d ident url) = Threw e)
          \<and> (r = Inr buf' \<and> sharp_webp E buf' = Inl e
                \<longrightarrow> fst (try_block E h d ident url) = Threw e)
          \<and> (r = Inr buf' \<and> sharp_webp E buf' = Inr webp
                \<and> writeFile E (h @ [GetHtml url, GetBuffer c (Some url)] @ es)
                     (path_join E (PUBLIC_IMG_DIR E) (ident @ ''.webp'')) webp = Some e
                \<longrightarrow> fst (try_block E h d ident url) = Threw e))"
  proof (intro impI conjI)
    assume p: "getHtml E h url = Inr html
         \<and> pick_image E (cheerio_load E html) url = Some c \<and> c \<noteq> [] \<and> \<not> isTrackingPixelUrl c"
    {
      assume "getBuffer E (h @ [GetHtml url]) c (Some url) = Inl e"
      then show "fst (try_block E h d ident url) = Threw e"
        using p by (simp add: try_block_def Let_def)
    }
    assume q: "getBuffer E (h @ [GetHtml url]) c (Some url) = Inr buf
            \<and> fallback_stage E (h @ [GetHtml url, GetBuffer c (Some url)])
                 (cheerio_load E html) url c buf = (r, es)"
    {
      assume "r = Inl e"
      then show "fst (try_block E h d ident url) = Threw e"
        using p q by (simp add: try_block_def Let_def)
    }
    {
      assume s: "r = Inr buf' \<and> sharp_webp E buf' = Inl e"
      obtain out2 es2 where sv:
        "save_stage E (h @ [GetHtml url, GetBuffer c (Some url)] @ es) d ident buf' = (out2, es2)"
        by (cases "save_stage E (h @ [GetHtml url, GetBuffer c (Some url)] @ es) d ident buf'")
      then have "out2 = Threw e" using s by (auto simp: save_stage_def Let_def)
      then show "fst (try_block E h d ident url) = Threw e"
        using p q s sv by (simp add: try_block_def Let_def)
    }
    {
      assume s: "r = Inr buf' \<and> sharp_webp E buf' = Inr webp
                \<and> writeFile E (h @ [GetHtml url, GetBuffer c (Some url)] @ es)
                     (path_join E (PUBLIC_IMG_DIR E) (ident @ ''.webp'')) webp = Some e"
      obtain out2 es2 where sv:
        "save_stage E (h @ [GetHtml url, GetBuffer c (Some url)] @ es) d ident buf' = (out2, es2)"
        by (cases "save_stage E (h @ [GetHtml url, GetBuffer c (Some url)] @ es) d ident buf'")
      then have "out2 = Threw e" using s by (auto simp: save_stage_def Let_def)
      then show "fst (try_block E h d ident url) = Threw e"
        using p q s sv by (simp add: try_block_def Let_def)
    }
  qed
  obtain out tes where t: "try_block E h d ident url = (out, tes)"
    by (cases "try_block E h d ident url")
  have c3: "fst (try_block E h d ident url) = Threw (Error msg)
       \<longrightarrow> loop_body E h d =
             (d, snd (try_block E h d ident url)
                 @ [ConsoleError (CHR 0xD7 # '' '' @ ident @ '': '' @ msg)], False)"
    using lb t by auto
  have c4: "fst (try_block E h d ident url) = Continued
       \<longrightarrow> loop_body E h d = (d, snd (try_block E h d ident url), False)"
    using lb t by auto
  have c5: "fst (try_block E h d ident url) = Threw e' \<or> fst (try_block E h d ident url) = Continued
       \<longrightarrow> fst (loop_body E h d) = d
          \<and> main_loop E h changed (d # ds) =
              (case main_loop E (h @ fst (snd (loop_body E h d))) changed ds of
                 (ds', es', ch') \<Rightarrow> (d # ds', fst (snd (loop_body E h d)) @ es', ch'))"
  proof
    assume ns: "fst (try_block E h d ident url) = Threw e' \<or> fst (try_block E h d ident url) = Continued"
    have "\<exists>es0. loop_body E h d = (d, es0, False)"
    proof (cases out)
      case (Threw er)
      obtain m where "er = Error m" by (cases er)
      then show ?thesis using lb t Threw by simp
    next
      case Continued
      then show ?thesis using lb t by simp
    next
      case (Saved d'')
      then show ?thesis using ns t by simp
    qed
    then obtain es0 where l: "loop_body E h d = (d, es0, False)" by blast
    show "fst (loop_body E h d) = d
          \<and> main_loop E h changed (d # ds) =
              (case main_loop E (h @ fst (snd (loop_body E h d))) changed ds of
                 (ds', es', ch') \<Rightarrow> (d # ds', fst (snd (loop_body E h d)) @ es', ch'))"
      using l main_loop_continues [OF l] by simp
  qed
  from c1 c2 c3 c4 c5 show ?thesis by (intro conjI)
qed

theorem failure_is_isolated_witness:
  "fst (try_block demo [] (deal_of ''x2'' ''https://example.com/gone'') ''x2''
          ''https://example.com/gone'') = Threw (Error ''GET https://example.com/gone -> 404'')
   \<and> fst (try_block demo [] (deal_of ''x6'' ''https://www.amazon.com/dp/B0'') ''x6''
            ''https://www.amazon.com/dp/B0'') = Threw (Error ''fetch failed'')
   \<and> fst (try_block demo [] (deal_of ''x3'' ''https://example.com/d'') ''x3''
            ''https://example.com/d'')
       = Threw (Error ''Input buffer contains unsupported image format'')
   \<and> fst (try_block demo [] (deal_of ''a/b'' ''https://example.com/q'') ''a/b''
            ''https://example.com/q'') = Threw (Error ''ENOENT: no such file or directory'')
   \<and> fst (main_loop demo [] False [deal_of ''x2'' ''https://example.com/gone'',
                                    deal_of ''x1'' ''https://example.com/q''])
     = [deal_of ''x2'' ''https://example.com/gone'',
        (deal_of ''x1'' ''https://example.com/q'')
          \<lparr>deal_image := Some ''/images/x1.webp'', deal_imageAlt := Some ''Widget''\<rparr>]"
proof -
  let ?g = "''https://example.com/gone''"
  let ?d = "deal_of ''x2'' ?g"
  let ?ds = "[deal_of ''x1'' ''https://example.com/q'']"
  let ?e = "Error ''GET https://example.com/gone -> 404''"
  have p: "\<not> truthy_str (deal_image ?d)" "deal_url ?d = Some ?g" "?g \<noteq> []"
    "deal_id ?d = Some ''x2''" "''x2'' \<noteq> []" by (simp_all add: deal_of_def)
  note t = failure_is_isolated [OF p, of demo "[]" ?e _ _ _ _ _ _ _ _ ?e False ?ds]
  have g: "getHtml demo [] ?g = Inl ?e" by code_simp
  have a: "fst (try_block demo [] ?d ''x2'' ?g) = Threw ?e" using t g by blast
  then have m: "main_loop demo [] False (?d # ?ds) =
              (case main_loop demo ([] @ fst (snd (loop_body demo [] ?d))) False ?ds of
                 (ds', es', ch') \<Rightarrow> (?d # ds', fst (snd (loop_body demo [] ?d)) @ es', ch'))"
    using t by blast
  have r: "fst (case main_loop demo ([] @ fst (snd (loop_body demo [] ?d))) False ?ds of
                 (ds', es', ch') \<Rightarrow> (?d # ds', fst (snd (loop_body demo [] ?d)) @ es', ch'))
           = [?d, (deal_of ''x1'' ''https://example.com/q'')
                    \<lparr>deal_image := Some ''/images/x1.webp'', deal_imageAlt := Some ''Widget''\<rparr>]"
    by code_simp
  have loop: "fst (main_loop demo [] False (?d # ?ds))
     = [?d, (deal_of ''x1'' ''https://example.com/q'')
          \<lparr>deal_image := Some ''/images/x1.webp'', deal_imageAlt := Some ''Widget''\<rparr>]"
    using m r by simp

  let ?az = "''https://www.amazon.com/dp/B0''"
  let ?cdn = "''https://m.media-amazon.com/images/I/x.jpg''"
  let ?d6 = "deal_of ''x6'' ?az"
  have p6: "\<not> truthy_str (deal_image ?d6)" "deal_url ?d6 = Some ?az" "?az \<noteq> []"
    "deal_id ?d6 = Some ''x6''" "''x6'' \<noteq> []" by (simp_all add: deal_of_def)
  have h6: "getHtml demo [] ?az = Inr ''page-amazon''
         \<and> pick_image demo (cheerio_load demo ''page-amazon'') ?az = Some ?cdn
         \<and> ?cdn \<noteq> [] \<and> \<not> isTrackingPixelUrl ?cdn" by code_simp
  have b6: "getBuffer demo ([] @ [GetHtml ?az]) ?cdn (Some ?az) = Inl (Error ''fetch failed'')"
    by code_simp
  have img: "fst (try_block demo [] ?d6 ''x6'' ?az) = Threw (Error ''fetch failed'')"
    using failure_is_isolated [OF p6, of demo "[]" "Error ''fetch failed''" "''page-amazon''" ?cdn]
      h6 b6 by blast

  let ?u3 = "''https://example.com/d''"
  let ?c3 = "''data:image/png;base64,AAAA''"
  let ?d3 = "deal_of ''x3'' ?u3"
  let ?e3 = "Error ''Input buffer contains unsupported image format''"
  have p3: "\<not> truthy_str (deal_image ?d3)" "deal_url ?d3 = Some ?u3" "?u3 \<noteq> []"
    "deal_id ?d3 = Some ''x3''" "''x3'' \<noteq> []" by (simp_all add: deal_of_def)
  have h3: "getHtml demo [] ?u3 = Inr ''page-data''
         \<and> pick_image demo (cheerio_load demo ''page-data'') ?u3 = Some ?c3
         \<and> ?c3 \<noteq> [] \<and> \<not> isTrackingPixelUrl ?c3" by code_simp
  have b3: "getBuffer demo ([] @ [GetHtml ?u3]) ?c3 (Some ?u3) = Inr ''data-bytes''
            \<and> fallback_stage demo ([] @ [GetHtml ?u3, GetBuffer ?c3 (Some ?u3)])
                 (cheerio_load demo ''page-data'') ?u3 ?c3 ''data-bytes'' = (Inr ''data-bytes'', [])"
    by code_simp
  have w3: "sharp_webp demo ''data-bytes'' = Inl ?e3" by (simp add: demo_def)
  have resize: "fst (try_block demo [] ?d3 ''x3'' ?u3) = Threw ?e3"
    using failure_is_isolated [OF p3, of demo "[]" ?e3 "''page-data''" ?c3 "''data-bytes''"
            "Inr ''data-bytes''" "[]" "''data-bytes''"]
      h3 b3 w3 by blast

  let ?q = "''https://example.com/q''"
  let ?cq = "''https://example.com/img/large.jpg''"
  let ?dq = "deal_of ''a/b'' ?q"
  let ?eq = "Error ''ENOENT: no such file or directory''"
  have pq: "\<not> truthy_str (deal_image ?dq)" "deal_url ?dq = Some ?q" "?q \<noteq> []"
    "deal_id ?dq = Some ''a/b''" "''a/b'' \<noteq> []" by (simp_all add: deal_of_def)
  have hq: "getHtml demo [] ?q = Inr ''page-large''
         \<and> pick_image demo (cheerio_load demo ''page-large'') ?q = Some ?cq
         \<and> ?cq \<noteq> [] \<and> \<not> isTrackingPixelUrl ?cq" by code_simp
  have bq: "getBuffer demo ([] @ [GetHtml ?q]) ?cq (Some ?q) = Inr ''large-bytes''
            \<and> fallback_stage demo ([] @ [GetHtml ?q, GetBuffer ?cq (Some ?q)])
                 (cheerio_load demo ''page-large'') ?q ?cq ''large-bytes'' = (Inr ''large-bytes'', [])"
    by code_simp
  have wq: "sharp_webp demo ''large-bytes'' = Inr ''webp:large-bytes''
            \<and> writeFile demo ([] @ [GetHtml ?q, GetBuffer ?cq (Some ?q)] @ [])
                 (path_join demo (PUBLIC_IMG_DIR demo) (''a/b'' @ ''.webp'')) ''webp:large-bytes''
               = Some ?eq" by (simp add: demo_def)
  have wr_fail: "fst (try_block demo [] ?dq ''a/b'' ?q) = Threw ?eq"
    using failure_is_isolated [OF pq, of demo "[]" ?eq "''page-large''" ?cq "''large-bytes''"
            "Inr ''large-bytes''" "[]" "''large-bytes''" "''webp:large-bytes''"]
      hq bq wq by blast
  from a img resize wr_fail loop show ?thesis by (intro conjI)
qed

lemma main_unfold:
  "main E deals =
     (fst (main_loop E [] False deals),
      fst (snd (main_loop E [] False deals))
      @ (if snd (snd (main_loop E [] False deals))
         then [WriteCatalog (fst (main_loop E [] False deals))] else []))"
  by (cases "main_loop E [] False deals") (simp add: main_def)

text \<open>
  Claim C6. A run writes the catalog exactly once if the catalog in memory differs from
  the one it started with, and then the write is the last event of the run and writes the
  whole catalog as it is at the end; it writes it not at all otherwise. The flag
  \<open>changed\<close> is set at the end of the loop exactly if some record differs, so a run in
  which every record is skipped or fails writes nothing.
\<close>

theorem catalog_written_iff_changed:
  "catalog_writes (snd (main E deals))
     = (if fst (main E deals) \<noteq> deals then [fst (main E deals)] else [])
   \<and> (fst (main E deals) \<noteq> deals
        \<longrightarrow> last (snd (main E deals)) = WriteCatalog (fst (main E deals)))
   \<and> snd (snd (main_loop E [] False deals)) = (fst (main E deals) \<noteq> deals)
   \<and> (\<not> snd (snd (main_loop E [] False deals)) \<longrightarrow> catalog_writes (snd (main E deals)) = [])"
proof -
  obtain ds' es ch where r: "main_loop E [] False deals = (ds', es, ch)"
    by (cases "main_loop E [] False deals")
  from main_loop_changed [OF r] have c: "ch = (ds' \<noteq> deals)" "catalog_writes es = []"
    by simp_all
  have m: "main E deals = (ds', es @ (if ch then [WriteCatalog ds'] else []))"
    using r by (simp add: main_unfold)
  show ?thesis using r c m by (simp add: catalog_writes_append)
qed

theorem catalog_written_iff_changed_witness:
  "catalog_writes (snd (main demo [deal_of ''x2'' ''https://example.com/gone'',
                                   deal_of ''x1'' ''https://example.com/q'']))
     = [[deal_of ''x2'' ''https://example.com/gone'',
         (deal_of ''x1'' ''https://example.com/q'')
           \<lparr>deal_image := Some ''/images/x1.webp'', deal_imageAlt := Some ''Widget''\<rparr>]]
   \<and> catalog_writes (snd (main demo [deal_of ''x2'' ''https://example.com/gone'',
                                     deal_of ''x4'' ''https://example.com/none''])) = []"
proof -
  let ?a = "[deal_of ''x2'' ''https://example.com/gone'', deal_of ''x1'' ''https://example.com/q'']"
  let ?b = "[deal_of ''x2'' ''https://example.com/gone'', deal_of ''x4'' ''https://example.com/none'']"
  have a: "fst (main demo ?a) = [deal_of ''x2'' ''https://example.com/gone'',
         (deal_of ''x1'' ''https://example.com/q'')
           \<lparr>deal_image := Some ''/images/x1.webp'', deal_imageAlt := Some ''Widget''\<rparr>]"
    by code_simp
  have a': "fst (main demo ?a) \<noteq> ?a" by code_simp
  have b: "fst (main demo ?b) = ?b" by code_simp
  show ?thesis
    using catalog_written_iff_changed [of demo ?a] catalog_written_iff_changed [of demo ?b]
      a a' b by simp
qed

text \<open>
  Claim C7. A round of the loop for a record whose \<open>image\<close> is not empty does nothing: no
  request, no write, no change of the record. A run keeps the number of records, and
  every record that had an \<open>image\<close> at the start is the same at the end. On a catalog
  whose records all have an \<open>image\<close> a run changes nothing and has no event at all, so
  a second run on the catalog a first run has left, when all its records have gained an
  \<open>image\<close>, is a no-op in every environment.
\<close>

theorem enriched_records_untouched:
  "(truthy_str (deal_image d) \<longrightarrow> loop_body E h d = (d, [], False))
   \<and> length (fst (main E deals)) = length deals
   \<and> (\<forall>k<length deals. truthy_str (deal_image (deals ! k))
         \<longrightarrow> fst (main E deals) ! k = deals ! k)
   \<and> ((\<forall>d\<in>set deals. truthy_str (deal_image d)) \<longrightarrow> main E deals = (deals, []))
   \<and> ((\<forall>d\<in>set (fst (main E deals)). truthy_str (deal_image d))
        \<longrightarrow> main E2 (fst (main E deals)) = (fst (main E deals), []))"
proof -
  obtain ds' es ch where r: "main_loop E [] False deals = (ds', es, ch)"
    by (cases "main_loop E [] False deals")
  have f: "fst (main E deals) = ds'" using r by (simp add: main_unfold)
  have all: "\<And>E ds. \<forall>d\<in>set ds. truthy_str (deal_image d) \<Longrightarrow> main E ds = (ds, [])"
    using main_loop_all_enriched by (simp add: main_def)
  have c1: "truthy_str (deal_image d) \<longrightarrow> loop_body E h d = (d, [], False)"
    by (simp add: loop_body_def)
  have c2: "length (fst (main E deals)) = length deals"
    using main_loop_changed [OF r] f by simp
  have c3: "\<forall>k<length deals. truthy_str (deal_image (deals ! k))
         \<longrightarrow> fst (main E deals) ! k = deals ! k"
    using main_loop_untouched [OF r] f by simp
  have c4: "(\<forall>d\<in>set deals. truthy_str (deal_image d)) \<longrightarrow> main E deals = (deals, [])"
    using all by blast
  have c5: "(\<forall>d\<in>set (fst (main E deals)). truthy_str (deal_image d))
        \<longrightarrow> main E2 (fst (main E deals)) = (fst (main E deals), [])"
    using all by blast
  from c1 c2 c3 c4 c5 show ?thesis by (intro conjI)
qed

theorem enriched_records_untouched_witness:
  "main demo (fst (main demo [deal_of ''x1'' ''https://example.com/q'']))
     = ([(deal_of ''x1'' ''https://example.com/q'')
           \<lparr>deal_image := Some ''/images/x1.webp'', deal_imageAlt := Some ''Widget''\<rparr>], [])
   \<and> loop_body demo []
        ((deal_of ''x1'' ''https://example.com/q'')\<lparr>deal_image := Some ''/images/x1.webp''\<rparr>)
     = ((deal_of ''x1'' ''https://example.com/q'')\<lparr>deal_image := Some ''/images/x1.webp''\<rparr>,
        [], False)"
proof -
  let ?ds = "[deal_of ''x1'' ''https://example.com/q'']"
  let ?d = "(deal_of ''x1'' ''https://example.com/q'')\<lparr>deal_image := Some ''/images/x1.webp''\<rparr>"
  have a: "fst (main demo ?ds) = [(deal_of ''x1'' ''https://example.com/q'')
           \<lparr>deal_image := Some ''/images/x1.webp'', deal_imageAlt := Some ''Widget''\<rparr>]"
    by code_simp
  have t: "truthy_str (deal_image ?d)" by simp
  note w = enriched_records_untouched [of ?d demo "[]" ?ds demo]
  have b: "loop_body demo [] ?d = (?d, [], False)" using w t by blast
  have "\<forall>d\<in>set (fst (main demo ?ds)). truthy_str (deal_image d)" unfolding a by simp
  then have "main demo (fst (main demo ?ds)) = (fst (main demo ?ds), [])" using w by blast
  then show ?thesis using a b by simp
qed

subsection \<open>The generic scan without a base\<close>

lemma absolutize_relative: "relative E c \<Longrightarrow> absolutize E (JStr c) None = None"
  by (cases "c = []") (simp_all add: relative_def)

lemma absolutize_no_base:
  assumes "absolutize E (JStr c) None = Some r"
  shows "(startsWith c ''//'' \<and> r = ''https:'' @ c)
         \<or> ((startsWith c ''http://'' \<or> startsWith c ''https://'') \<and> r = c)
         \<or> (\<exists>u. URL E c None = Some u \<and> r = href u)"
proof (cases "c = []")
  case True
  then show ?thesis using assms by simp
next
  case ne: False
  show ?thesis
  proof (cases "startsWith c ''//''")
    case True
    then show ?thesis using assms ne by simp
  next
    case ns: False
    show ?thesis
    proof (cases "startsWith c ''http://'' \<or> startsWith c ''https://''")
      case True
      then show ?thesis using assms ne ns by auto
    next
      case False
      then show ?thesis using assms ne ns by (cases "URL E c None") simp_all
    qed
  qed
qed

text \<open>
  Claim C9. When neither landmark gives an image, \<open>pickAmazonImage\<close> is the generic scan
  without a base. There \<open>absolutize\<close> gives no value for a relative candidate, and the
  filter drops it. So whatever this path returns comes from a candidate that is not
  relative: a protocol-relative one with \<open>https:\<close> in front, one that starts with
  \<open>http://\<close> or \<open>https://\<close> as it is, or the href of one that the URL constructor
  accepts without a base. On this path no relative candidate is left for \<open>absolutize\<close>
  in \<open>main\<close>.
\<close>

theorem delegated_scan_drops_relative:
  "(\<not> truthy_str (tryEl E (S ''#landingImage''))
      \<and> \<not> truthy_str (tryEl E (S ''#imgTagWrapperId img''))
    \<longrightarrow> pickAmazonImage E S = pickFirstLargeImg E S None)
   \<and> (relative E c
        \<longrightarrow> absolutize E (JStr c) None = None \<and> \<not> usable (absolutize E (JStr c) None))
   \<and> (pickFirstLargeImg E S None = Some r
        \<longrightarrow> (\<exists>c\<in>set (collect E S). \<not> relative E c
               \<and> ((startsWith c ''//'' \<and> r = ''https:'' @ c)
                   \<or> ((startsWith c ''http://'' \<or> startsWith c ''https://'') \<and> r = c)
                   \<or> (\<exists>u. URL E c None = Some u \<and> r = href u))))"
proof (intro conjI impI)
  assume "\<not> truthy_str (tryEl E (S ''#landingImage''))
      \<and> \<not> truthy_str (tryEl E (S ''#imgTagWrapperId img''))"
  then show "pickAmazonImage E S = pickFirstLargeImg E S None"
    by (simp add: pickAmazonImage_def)
next
  assume "relative E c"
  then show "absolutize E (JStr c) None = None" by (rule absolutize_relative)
next
  assume "relative E c"
  then have "absolutize E (JStr c) None = None" by (rule absolutize_relative)
  then show "\<not> usable (absolutize E (JStr c) None)"
    by (simp only: usable_def option.case not_False_eq_True)
next
  assume "pickFirstLargeImg E S None = Some r"
  from pickFirstLargeImg_mem [OF this]
  obtain c where c: "c \<in> set (collect E S)" "absolutize E (JStr c) None = Some r" by auto
  have "\<not> relative E c" using c(2) absolutize_relative [of E c] by auto
  then show "\<exists>c\<in>set (collect E S). \<not> relative E c
               \<and> ((startsWith c ''//'' \<and> r = ''https:'' @ c)
                   \<or> ((startsWith c ''http://'' \<or> startsWith c ''https://'') \<and> r = c)
                   \<or> (\<exists>u. URL E c None = Some u \<and> r = href u))"
    using c absolutize_no_base [OF c(2)] by blast
qed

theorem delegated_scan_drops_relative_witness:
  "collect demo (demo_page ''page-amazon'')
     = [''img/a.jpg'', ''//m.media-amazon.com/images/I/x.jpg'']
   \<and> absolutize demo (JStr ''img/a.jpg'') None = None
   \<and> pickAmazonImage demo (demo_page ''page-amazon'')
     = Some ''https://m.media-amazon.com/images/I/x.jpg''"
proof -
  let ?S = "demo_page ''page-amazon''"
  note t = delegated_scan_drops_relative [of demo ?S "''img/a.jpg''"
             "''https://m.media-amazon.com/images/I/x.jpg''"]
  have a: "collect demo ?S = [''img/a.jpg'', ''//m.media-amazon.com/images/I/x.jpg'']"
    by code_simp
  have l: "\<not> truthy_str (tryEl demo (?S ''#landingImage''))
      \<and> \<not> truthy_str (tryEl demo (?S ''#imgTagWrapperId img''))" by code_simp
  have r: "relative demo ''img/a.jpg''" by code_simp
  have p: "pickFirstLargeImg demo ?S None = Some ''https://m.media-amazon.com/images/I/x.jpg''"
    by code_simp
  have b: "absolutize demo (JStr ''img/a.jpg'') None = None" using t r by blast
  have c: "pickAmazonImage demo ?S = Some ''https://m.media-amazon.com/images/I/x.jpg''"
    using t l p by simp
  from a b c show ?thesis by (intro conjI)
qed

end
